theory Spec2Isabelle
  imports Complex_Main
begin

section \<open>Data model: cells, series, tables\<close>

text \<open>
  The transformers of \<^verbatim>\<open>src/custom_transformers.py\<close> work on pandas data frames.
  A cell is a missing value (NaN / None), a boolean, a number or a string. Numbers are
  exact rationals: rounding of floating-point arithmetic is not modelled. Cells are
  compared structurally, so Python's identification of \<^verbatim>\<open>True\<close> with \<^verbatim>\<open>1\<close> is not
  modelled either.
\<close>

datatype cell = Missing | Bool bool | Num rat | Str string

type_synonym series = "cell list"

text \<open>
  A data frame is its index (the row labels, one per row) and its columns in order,
  each a name with a series. A frame with no column still has its rows.
\<close>

record table =
  index :: "int list"
  columns :: "(string \<times> series) list"

definition nrows :: "table \<Rightarrow> nat" where
  "nrows X = length (index X)"

definition column_names :: "table \<Rightarrow> string list" where
  "column_names X = map fst (columns X)"

text \<open>A well-formed frame: column names are unique and every series has one cell per row.\<close>

definition wf_table :: "table \<Rightarrow> bool" where
  "wf_table X \<longleftrightarrow>
     distinct (column_names X) \<and> list_all (\<lambda>(n, s). length s = nrows X) (columns X)"

text \<open>The exceptions the code can meet, and the one the specification names.\<close>

datatype error = KeyError | IndexError | ValueError | TypeError | NotFittedError

text \<open>Sequencing of a computation that may raise.\<close>

definition bind_err :: "error + 'a \<Rightarrow> ('a \<Rightarrow> error + 'b) \<Rightarrow> error + 'b" where
  "bind_err m f = (case m of Inl e \<Rightarrow> Inl e | Inr x \<Rightarrow> f x)"

text \<open>A Python \<^verbatim>\<open>for\<close> loop whose body updates the loop state or raises.\<close>

fun for_each :: "'a list \<Rightarrow> ('a \<Rightarrow> 's \<Rightarrow> error + 's) \<Rightarrow> 's \<Rightarrow> error + 's" where
  "for_each [] body s = Inr s"
| "for_each (x # xs) body s = bind_err (body x s) (for_each xs body)"

subsection \<open>Frame operations\<close>

text \<open>\<^verbatim>\<open>X[col]\<close>: the series of a column, KeyError when the frame has no such column.\<close>

definition getitem :: "table \<Rightarrow> string \<Rightarrow> error + series" where
  "getitem X col = (case map_of (columns X) col of None \<Rightarrow> Inl KeyError | Some s \<Rightarrow> Inr s)"

text \<open>
  \<^verbatim>\<open>X[col] = s\<close>: an existing column is replaced where it stands, a new one is appended.
\<close>

fun assign :: "string \<Rightarrow> 'v \<Rightarrow> (string \<times> 'v) list \<Rightarrow> (string \<times> 'v) list" where
  "assign k v [] = [(k, v)]"
| "assign k v ((k', v') # kvs) = (if k = k' then (k, v) # kvs else (k', v') # assign k v kvs)"

definition setitem :: "table \<Rightarrow> string \<Rightarrow> series \<Rightarrow> table" where
  "setitem X col s = X\<lparr>columns := assign col s (columns X)\<rparr>"

text \<open>
  \<^verbatim>\<open>X.drop(columns=cols)\<close> raises KeyError when a listed column is absent;
  with \<^verbatim>\<open>errors="ignore"\<close> absent names are skipped.
\<close>

definition drop_ignore :: "table \<Rightarrow> string list \<Rightarrow> table" where
  "drop_ignore X cols = X\<lparr>columns := filter (\<lambda>(n, s). n \<notin> set cols) (columns X)\<rparr>"

definition drop_columns :: "table \<Rightarrow> string list \<Rightarrow> error + table" where
  "drop_columns X cols =
     (if list_all (\<lambda>c. c \<in> set (column_names X)) cols then Inr (drop_ignore X cols)
      else Inl KeyError)"

text \<open>\<^verbatim>\<open>X.copy()\<close> on values: the copy has the contents of the original.\<close>

definition copy :: "table \<Rightarrow> table" where
  "copy X = X"

text \<open>A Python dict read: \<^verbatim>\<open>d[k]\<close> raises KeyError for an absent key.\<close>

definition dict_get :: "(string \<times> 'v) list \<Rightarrow> string \<Rightarrow> error + 'v" where
  "dict_get d k = (case map_of d k of None \<Rightarrow> Inl KeyError | Some v \<Rightarrow> Inr v)"

section \<open>RareCategoryGrouper\<close>

record RareCategoryGrouper =
  rcg_columns :: "string list"
  min_frequency :: rat
  frequent_categories :: "(string \<times> cell list) list"

text \<open>
  \<^verbatim>\<open>__init__\<close>: the fitted dict \<^verbatim>\<open>frequent_categories_\<close> (here without its
  trailing underscore) starts empty.
\<close>

definition RareCategoryGrouper_init :: "string list \<Rightarrow> rat \<Rightarrow> RareCategoryGrouper" where
  "RareCategoryGrouper_init cols mf =
     \<lparr>rcg_columns = cols, min_frequency = mf, frequent_categories = []\<rparr>"

text \<open>
  \<^verbatim>\<open>Series.value_counts(normalize=True)\<close>: missing cells are dropped, each distinct
  remaining value is counted, the entries are ordered by falling count (values of equal
  count in order of first appearance), and each count is divided by the number of
  non-missing cells.
\<close>

definition dropna :: "series \<Rightarrow> series" where
  "dropna s = filter (\<lambda>c. c \<noteq> Missing) s"

definition unique_values :: "series \<Rightarrow> cell list" where
  "unique_values s = rev (remdups (rev s))"

definition value_counts_normalize :: "series \<Rightarrow> (cell \<times> rat) list" where
  "value_counts_normalize s =
     (let vals = dropna s;
          counts = map (\<lambda>v. (v, count_list vals v)) (unique_values vals);
          ordered = sort_key (\<lambda>(v, c). - int c) counts
      in map (\<lambda>(v, c). (v, of_nat c / of_nat (length vals))) ordered)"

text \<open>\<^verbatim>\<open>freq[freq >= min_frequency].index.tolist()\<close>\<close>

definition frequent_index :: "rat \<Rightarrow> (cell \<times> rat) list \<Rightarrow> cell list" where
  "frequent_index mf freq = map fst (filter (\<lambda>(v, f). f \<ge> mf) freq)"

definition RareCategoryGrouper_fit ::
    "RareCategoryGrouper \<Rightarrow> table \<Rightarrow> error + RareCategoryGrouper" where
  "RareCategoryGrouper_fit self X0 =
     (let X = copy X0 in
      for_each (rcg_columns self)
        (\<lambda>col self.
           bind_err (getitem X col) (\<lambda>s.
             let freq = value_counts_normalize s in
             Inr (self\<lparr>frequent_categories :=
                    assign col (frequent_index (min_frequency self) freq)
                      (frequent_categories self)\<rparr>)))
        self)"

text \<open>
  \<^verbatim>\<open>s.where(s.isin(cats), other="Other")\<close>: a cell that is in \<open>cats\<close> is kept, every
  other cell becomes the string \<open>Other\<close>.
\<close>

definition isin :: "series \<Rightarrow> cell list \<Rightarrow> bool list" where
  "isin s cats = map (\<lambda>c. c \<in> set cats) s"

definition where_other :: "series \<Rightarrow> bool list \<Rightarrow> cell \<Rightarrow> series" where
  "where_other s cond other = map (\<lambda>(c, b). if b then c else other) (zip s cond)"

definition RareCategoryGrouper_transform ::
    "RareCategoryGrouper \<Rightarrow> table \<Rightarrow> error + table" where
  "RareCategoryGrouper_transform self X0 =
     (let X = copy X0 in
      for_each (rcg_columns self)
        (\<lambda>col X.
           bind_err (getitem X col) (\<lambda>s.
           bind_err (dict_get (frequent_categories self) col) (\<lambda>cats.
             Inr (setitem X col (where_other s (isin s cats) (Str ''Other''))))))
        X)"

text \<open>
  The spec's relative frequency of a value in a column, with the convention the code
  follows (rows with the value over non-missing rows), and the other convention the spec
  mentions (rows with the value over all rows).
\<close>

definition relative_frequency :: "series \<Rightarrow> cell \<Rightarrow> rat" where
  "relative_frequency s v =
     of_nat (length (filter (\<lambda>c. c = v) s)) / of_nat (length (filter (\<lambda>c. c \<noteq> Missing) s))"


section \<open>AreaFeatureSelector\<close>

text \<open>\<^verbatim>\<open>X[cols]\<close> with a list: the sub-frame of the listed columns, in the listed order.\<close>

definition getitem_list :: "table \<Rightarrow> string list \<Rightarrow> error + table" where
  "getitem_list X cols =
     (case those (map (\<lambda>c. map_option (Pair c) (map_of (columns X) c)) cols) of
        None \<Rightarrow> Inl KeyError
      | Some cs \<Rightarrow> Inr (X\<lparr>columns := cs\<rparr>))"

text \<open>
  \<^verbatim>\<open>bfill(axis=1)\<close>: in every row, a missing cell takes the next non-missing value to
  its right, if there is one.
\<close>

fun bfill_row :: "cell list \<Rightarrow> cell list" where
  "bfill_row [] = []"
| "bfill_row (c # cs) =
     (let r = bfill_row cs
      in (if c = Missing then (case r of [] \<Rightarrow> Missing | x # _ \<Rightarrow> x) else c) # r)"

definition row_at :: "table \<Rightarrow> nat \<Rightarrow> cell list" where
  "row_at X i = map (\<lambda>(n, s). s ! i) (columns X)"

definition bfill_axis1 :: "table \<Rightarrow> table" where
  "bfill_axis1 X =
     (let rows = map (\<lambda>i. bfill_row (row_at X i)) [0..<nrows X]
      in X\<lparr>columns := map (\<lambda>j. (fst (columns X ! j), map (\<lambda>r. r ! j) rows))
                           [0..<length (columns X)]\<rparr>)"

text \<open>\<^verbatim>\<open>.iloc[:, 0]\<close>: the first column by position, IndexError when there is none.\<close>

definition iloc_first_column :: "table \<Rightarrow> error + series" where
  "iloc_first_column X = (case columns X of [] \<Rightarrow> Inl IndexError | (n, s) # _ \<Rightarrow> Inr s)"

definition AreaFeatureSelector_transform :: "string list \<Rightarrow> table \<Rightarrow> error + table" where
  "AreaFeatureSelector_transform area_columns X0 =
     (let X = copy X0 in
      bind_err (getitem_list X area_columns) (\<lambda>A.
      bind_err (iloc_first_column (bfill_axis1 A)) (\<lambda>main.
        let X = setitem X ''MainArea'' main in
        drop_columns X area_columns)))"

text \<open>The spec's reading of a row: the first non-missing value in the listed order.\<close>

fun first_valid :: "cell list \<Rightarrow> cell" where
  "first_valid [] = Missing"
| "first_valid (c # cs) = (if c \<noteq> Missing then c else first_valid cs)"

section \<open>BooleanNormalizer\<close>

text \<open>
  \<^verbatim>\<open>astype(str)\<close> turns every cell into a string: NaN into \<open>nan\<close>, a boolean into
  \<open>True\<close> or \<open>False\<close>, a string into itself. The text Python prints for a number
  depends on the column's dtype (\<open>1\<close> for an integer column, \<open>1.0\<close> for a float column);
  it is the parameter \<open>repr\<close>.
\<close>

definition astype_str :: "(rat \<Rightarrow> string) \<Rightarrow> cell \<Rightarrow> string" where
  "astype_str repr c =
     (case c of Missing \<Rightarrow> ''nan'' | Bool b \<Rightarrow> (if b then ''True'' else ''False'')
      | Num r \<Rightarrow> repr r | Str s \<Rightarrow> s)"

text \<open>
  \<^verbatim>\<open>str.lower()\<close> on the letters A to Z; other characters are left as they are (no
  other character lowers to a string of the truthy or falsy set).
\<close>

definition lower_char :: "char \<Rightarrow> char" where
  "lower_char c =
     (case map_of (zip ''ABCDEFGHIJKLMNOPQRSTUVWXYZ'' ''abcdefghijklmnopqrstuvwxyz'') c of
        None \<Rightarrow> c | Some l \<Rightarrow> l)"

definition str_lower :: "string \<Rightarrow> string" where
  "str_lower s = map lower_char s"

definition true_values :: "cell list" where
  "true_values = [Str ''yes'', Str ''true'', Str ''1'', Num 1, Bool True]"

definition false_values :: "cell list" where
  "false_values = [Str ''no'', Str ''false'', Str ''0'', Num 0, Bool False]"

text \<open>The lambda given to \<^verbatim>\<open>map\<close>; its argument is always a string.\<close>

definition boolean_code :: "string \<Rightarrow> cell" where
  "boolean_code x =
     (if Str x \<in> set true_values then Num 1
      else (if Str x \<in> set false_values then Num 0 else Missing))"

definition BooleanNormalizer_transform ::
    "(rat \<Rightarrow> string) \<Rightarrow> string list \<Rightarrow> table \<Rightarrow> error + table" where
  "BooleanNormalizer_transform repr cols X0 =
     (let X = copy X0 in
      for_each cols
        (\<lambda>col X.
           bind_err (getitem X col) (\<lambda>s.
             Inr (setitem X col (map boolean_code (map str_lower (map (astype_str repr) s))))))
        X)"

section \<open>DateFeatureExtractor\<close>

datatype timestamp = Timestamp (year: int) (month: int) (day: int)

text \<open>
  \<^verbatim>\<open>pd.to_datetime(s, errors="coerce")\<close> is pandas' lenient parser: it gives a
  timestamp or NaT (here \<open>None\<close>) for every cell and does not raise. It is the parameter
  \<open>to_datetime\<close> of the transform. \<^verbatim>\<open>dates.dt.year\<close> and \<^verbatim>\<open>dates.dt.month\<close> read the
  fields, NaT giving a missing cell.
\<close>

definition dt_year :: "timestamp option list \<Rightarrow> series" where
  "dt_year dates = map (\<lambda>d. case d of None \<Rightarrow> Missing | Some t \<Rightarrow> Num (of_int (year t))) dates"

definition dt_month :: "timestamp option list \<Rightarrow> series" where
  "dt_month dates = map (\<lambda>d. case d of None \<Rightarrow> Missing | Some t \<Rightarrow> Num (of_int (month t))) dates"

definition DateFeatureExtractor_transform ::
    "(series \<Rightarrow> timestamp option list) \<Rightarrow> string \<Rightarrow> string \<Rightarrow> table \<Rightarrow> error + table" where
  "DateFeatureExtractor_transform to_datetime column prefix X0 =
     (let X = copy X0 in
      bind_err (getitem X column) (\<lambda>s.
        let dates = to_datetime s;
            X = setitem X (prefix @ ''Year'') (dt_year dates);
            X = setitem X (prefix @ ''Month'') (dt_month dates)
        in drop_columns X [column]))"

text \<open>
  What the transform needs of the parser: one result per cell, and NaT for a missing cell.
\<close>

definition lenient_parser :: "(series \<Rightarrow> timestamp option list) \<Rightarrow> bool" where
  "lenient_parser to_datetime \<longleftrightarrow>
     (\<forall>s. length (to_datetime s) = length s \<and>
          (\<forall>i < length s. s ! i = Missing \<longrightarrow> to_datetime s ! i = None))"

section \<open>OutlierClipper\<close>

record OutlierClipper =
  oc_columns :: "string list"
  lower_quantile :: rat
  upper_quantile :: rat
  bounds :: "(string \<times> rat option \<times> rat option) list"

text \<open>
  \<^verbatim>\<open>__init__\<close> stores its arguments and checks nothing; the fitted dict \<^verbatim>\<open>bounds_\<close>
  starts empty. A bound is \<open>None\<close> when pandas gives NaN.
\<close>

definition OutlierClipper_init :: "string list \<Rightarrow> rat \<Rightarrow> rat \<Rightarrow> OutlierClipper" where
  "OutlierClipper_init cols lq uq =
     \<lparr>oc_columns = cols, lower_quantile = lq, upper_quantile = uq, bounds = []\<rparr>"

text \<open>
  \<^verbatim>\<open>Series.quantile(q)\<close>: a fraction outside [0, 1] is a ValueError; strings and booleans
  have no quantile (TypeError); missing cells are skipped; no value left gives NaN;
  otherwise the sorted values are interpolated linearly at position \<open>q * (n - 1)\<close>.
\<close>

fun numeric_values :: "series \<Rightarrow> error + rat list" where
  "numeric_values [] = Inr []"
| "numeric_values (Missing # cs) = numeric_values cs"
| "numeric_values (Num r # cs) = bind_err (numeric_values cs) (\<lambda>rs. Inr (r # rs))"
| "numeric_values (c # cs) = Inl TypeError"

definition linear_quantile :: "rat list \<Rightarrow> rat \<Rightarrow> rat" where
  "linear_quantile xs q =
     (let h = q * of_nat (length xs - 1);
          i = nat \<lfloor>h\<rfloor>;
          frac = h - of_nat i
      in if i + 1 < length xs then xs ! i + frac * (xs ! (i + 1) - xs ! i) else xs ! i)"

definition quantile :: "series \<Rightarrow> rat \<Rightarrow> error + rat option" where
  "quantile s q =
     (if q < 0 \<or> 1 < q then Inl ValueError
      else bind_err (numeric_values s) (\<lambda>vs.
             Inr (if vs = [] then None else Some (linear_quantile (sort vs) q))))"

definition OutlierClipper_fit :: "OutlierClipper \<Rightarrow> table \<Rightarrow> error + OutlierClipper" where
  "OutlierClipper_fit self X0 =
     (let X = copy X0 in
      for_each (oc_columns self)
        (\<lambda>col self.
           bind_err (getitem X col) (\<lambda>s.
           bind_err (quantile s (lower_quantile self)) (\<lambda>lower.
           bind_err (getitem X col) (\<lambda>s.
           bind_err (quantile s (upper_quantile self)) (\<lambda>upper.
             Inr (self\<lparr>bounds := assign col (lower, upper) (bounds self)\<rparr>))))))
        self)"

text \<open>
  \<^verbatim>\<open>Series.clip(lower, upper)\<close>: a NaN bound is no bound; two bounds given in the wrong
  order are swapped; a missing cell stays missing; a cell below the lower bound becomes
  the lower bound, a cell above the upper bound the upper bound. A boolean compares as 1
  or 0; comparing a string with a bound is a TypeError.
\<close>

definition cell_number :: "cell \<Rightarrow> rat option" where
  "cell_number c =
     (case c of Num r \<Rightarrow> Some r | Bool b \<Rightarrow> Some (if b then 1 else 0) | _ \<Rightarrow> None)"

definition is_string :: "cell \<Rightarrow> bool" where
  "is_string c = (case c of Str s \<Rightarrow> True | _ \<Rightarrow> False)"

definition clip_cell :: "rat option \<Rightarrow> rat option \<Rightarrow> cell \<Rightarrow> cell" where
  "clip_cell lower upper c =
     (case cell_number c of
        None \<Rightarrow> c
      | Some r \<Rightarrow>
          (let c1 = (case lower of None \<Rightarrow> c | Some l \<Rightarrow> if r \<ge> l then c else Num l)
           in (case upper of None \<Rightarrow> c1 | Some u \<Rightarrow> if r \<le> u then c1 else Num u)))"

definition clip :: "series \<Rightarrow> rat option \<Rightarrow> rat option \<Rightarrow> error + series" where
  "clip s lower0 upper0 =
     (let (lower, upper) =
            (case (lower0, upper0) of
               (Some l, Some u) \<Rightarrow> (Some (min l u), Some (max l u))
             | _ \<Rightarrow> (lower0, upper0))
      in if (lower \<noteq> None \<or> upper \<noteq> None) \<and> list_ex is_string s then Inl TypeError
         else Inr (map (clip_cell lower upper) s))"

definition OutlierClipper_transform :: "OutlierClipper \<Rightarrow> table \<Rightarrow> error + table" where
  "OutlierClipper_transform self X0 =
     (let X = copy X0 in
      for_each (bounds self)
        (\<lambda>(col, (lower, upper)) X.
           bind_err (getitem X col) (\<lambda>s.
           bind_err (clip s lower upper) (\<lambda>s'.
             Inr (setitem X col s'))))
        X)"

section \<open>ColumnDropper\<close>

definition ColumnDropper_transform :: "string list \<Rightarrow> table \<Rightarrow> error + table" where
  "ColumnDropper_transform cols X0 = (let X = copy X0 in Inr (drop_ignore X cols))"

section \<open>Auxiliary definitions for the proofs\<close>

text \<open>
  The frame in which the series of every column named by an item is replaced by its image
  under the item's function: what a loop over the items leaves when each step rewrites
  one column.
\<close>

definition update_columns ::
    "('a \<Rightarrow> string) \<Rightarrow> ('a \<Rightarrow> series \<Rightarrow> series) \<Rightarrow> 'a list \<Rightarrow> table \<Rightarrow> table" where
  "update_columns key F items X =
     X\<lparr>columns := map (\<lambda>(n, s). (n, case find (\<lambda>it. key it = n) items of
                                        None \<Rightarrow> s | Some it \<Rightarrow> F it s)) (columns X)\<rparr>"

text \<open>Example frames.\<close>

definition boundary_table :: table where
  "boundary_table =
     \<lparr>index = [0, 1, 2, 3],
      columns = [(''City'', [Str ''A'', Str ''B'', Str ''B'', Missing])]\<rparr>"

definition city_table :: table where
  "city_table =
     \<lparr>index = [0, 1, 2],
      columns = [(''City'', [Str ''A'', Str ''A'', Missing])]\<rparr>"

definition price_table :: table where
  "price_table = \<lparr>index = [0, 1], columns = [(''Price'', [Num 5, Missing])]\<rparr>"

definition flag_table :: table where
  "flag_table =
     \<lparr>index = [0, 1, 2, 3, 4],
      columns = [(''HasGarage'', [Str ''YES'', Str ''no'', Str ''maybe'', Missing, Bool True])]\<rparr>"

definition example_to_datetime :: "series \<Rightarrow> timestamp option list" where
  "example_to_datetime s =
     map (\<lambda>c. if c = Str ''2024-01-15'' then Some (Timestamp 2024 1 15) else None) s"



definition area_table :: table where
  "area_table =
     \<lparr>index = [0, 1, 2],
      columns = [(''MainArea'', [Missing, Num 80, Missing]),
                 (''LivingArea'', [Num 55, Num 70, Missing]),
                 (''Price'', [Num 1, Num 2, Num 3])]\<rparr>"

definition sample_table :: table where
  "sample_table =
     \<lparr>index = [0, 1, 2, 3, 4],
      columns = [(''Price'', [Num 10, Num 20, Missing, Num 40, Num 30])]\<rparr>"

text \<open>
  The bounds \<^verbatim>\<open>clip\<close> works with: both given, the smaller first; and what it is for a number
  to lie within them, a missing bound being no bound.
\<close>

definition effective_bounds :: "rat option \<Rightarrow> rat option \<Rightarrow> rat option \<times> rat option" where
  "effective_bounds lower upper =
     (case (lower, upper) of
        (Some l, Some u) \<Rightarrow> (Some (min l u), Some (max l u))
      | _ \<Rightarrow> (lower, upper))"

definition within_bounds :: "rat option \<times> rat option \<Rightarrow> rat \<Rightarrow> bool" where
  "within_bounds b r =
     ((case fst b of None \<Rightarrow> True | Some l \<Rightarrow> l \<le> r) \<and>
      (case snd b of None \<Rightarrow> True | Some u \<Rightarrow> r \<le> u))"

definition ordered_bounds :: "rat option \<times> rat option \<Rightarrow> bool" where
  "ordered_bounds b = (case b of (Some l, Some u) \<Rightarrow> l \<le> u | _ \<Rightarrow> True)"

definition missing_table :: table where
  "missing_table = \<lparr>index = [0, 1], columns = [(''Price'', [Missing, Missing])]\<rparr>"

section \<open>The units as one type, and transform on a store of frames\<close>

text \<open>
  The six units share the \<open>fit\<close>/\<open>transform\<close> interface; \<open>transform\<close> dispatches on the unit.
  The two library conversions that are parameters of the model (the text of a number, the
  lenient date parser) are passed along.

  To speak about the caller's frame, frames are also placed in a store: a list of frames,
  the address of a frame being its position. \<^verbatim>\<open>X.copy()\<close> and \<^verbatim>\<open>X.drop(...)\<close> allocate a new
  frame; \<^verbatim>\<open>X[col] = s\<close> changes the frame at the address \<open>X\<close> in place; reading a column or a
  sub-frame changes nothing. A computation on the store returns the new store with an error
  or a value, and each \<open>transform\<close> is written once more over the store, statement by
  statement.
\<close>

datatype transformer =
    AreaFeatureSelector "string list"
  | RareCategoryGrouper_unit RareCategoryGrouper
  | BooleanNormalizer "string list"
  | DateFeatureExtractor string string
  | OutlierClipper_unit OutlierClipper
  | ColumnDropper "string list"

definition transform ::
    "(rat \<Rightarrow> string) \<Rightarrow> (series \<Rightarrow> timestamp option list) \<Rightarrow> transformer \<Rightarrow> table
       \<Rightarrow> error + table" where
  "transform repr to_datetime u X =
     (case u of
        AreaFeatureSelector area_columns \<Rightarrow> AreaFeatureSelector_transform area_columns X
      | RareCategoryGrouper_unit self \<Rightarrow> RareCategoryGrouper_transform self X
      | BooleanNormalizer cols \<Rightarrow> BooleanNormalizer_transform repr cols X
      | DateFeatureExtractor column prefix \<Rightarrow>
          DateFeatureExtractor_transform to_datetime column prefix X
      | OutlierClipper_unit self \<Rightarrow> OutlierClipper_transform self X
      | ColumnDropper cols \<Rightarrow> ColumnDropper_transform cols X)"

type_synonym addr = nat

type_synonym heap = "table list"

definition h_bind ::
    "(heap \<Rightarrow> heap \<times> (error + 'a)) \<Rightarrow> ('a \<Rightarrow> heap \<Rightarrow> heap \<times> (error + 'b))
       \<Rightarrow> heap \<Rightarrow> heap \<times> (error + 'b)" where
  "h_bind m f h = (case m h of (h', Inl e) \<Rightarrow> (h', Inl e) | (h', Inr v) \<Rightarrow> f v h')"

definition h_return :: "'a \<Rightarrow> heap \<Rightarrow> heap \<times> (error + 'a)" where
  "h_return v h = (h, Inr v)"

definition h_lift :: "error + 'a \<Rightarrow> heap \<Rightarrow> heap \<times> (error + 'a)" where
  "h_lift m h = (h, m)"

definition h_read :: "addr \<Rightarrow> (table \<Rightarrow> error + 'a) \<Rightarrow> heap \<Rightarrow> heap \<times> (error + 'a)" where
  "h_read X f h = (h, f (h ! X))"

definition h_copy :: "addr \<Rightarrow> heap \<Rightarrow> heap \<times> (error + addr)" where
  "h_copy X h = (h @ [h ! X], Inr (length h))"

definition h_setitem :: "addr \<Rightarrow> string \<Rightarrow> series \<Rightarrow> heap \<Rightarrow> heap \<times> (error + unit)" where
  "h_setitem X col s h = (h[X := setitem (h ! X) col s], Inr ())"

definition h_drop :: "addr \<Rightarrow> string list \<Rightarrow> heap \<Rightarrow> heap \<times> (error + addr)" where
  "h_drop X cols h =
     (case drop_columns (h ! X) cols of
        Inl e \<Rightarrow> (h, Inl e)
      | Inr t \<Rightarrow> (h @ [t], Inr (length h)))"

definition h_drop_ignore :: "addr \<Rightarrow> string list \<Rightarrow> heap \<Rightarrow> heap \<times> (error + addr)" where
  "h_drop_ignore X cols h = (h @ [drop_ignore (h ! X) cols], Inr (length h))"

fun h_for_each ::
    "'a list \<Rightarrow> ('a \<Rightarrow> heap \<Rightarrow> heap \<times> (error + unit)) \<Rightarrow> heap \<Rightarrow> heap \<times> (error + unit)" where
  "h_for_each [] body h = (h, Inr ())"
| "h_for_each (x # xs) body h = h_bind (body x) (\<lambda>_. h_for_each xs body) h"

definition AreaFeatureSelector_transform_h ::
    "string list \<Rightarrow> addr \<Rightarrow> heap \<Rightarrow> heap \<times> (error + addr)" where
  "AreaFeatureSelector_transform_h area_columns X0 =
     h_bind (h_copy X0) (\<lambda>X.
     h_bind (h_read X (\<lambda>t. getitem_list t area_columns)) (\<lambda>A.
     h_bind (h_lift (iloc_first_column (bfill_axis1 A))) (\<lambda>main.
     h_bind (h_setitem X ''MainArea'' main) (\<lambda>_.
     h_drop X area_columns))))"

definition RareCategoryGrouper_transform_h ::
    "RareCategoryGrouper \<Rightarrow> addr \<Rightarrow> heap \<Rightarrow> heap \<times> (error + addr)" where
  "RareCategoryGrouper_transform_h self X0 =
     h_bind (h_copy X0) (\<lambda>X.
     h_bind (h_for_each (rcg_columns self)
              (\<lambda>col.
                 h_bind (h_read X (\<lambda>t. getitem t col)) (\<lambda>s.
                 h_bind (h_lift (dict_get (frequent_categories self) col)) (\<lambda>cats.
                 h_setitem X col (where_other s (isin s cats) (Str ''Other'')))))) (\<lambda>_.
     h_return X))"

definition BooleanNormalizer_transform_h ::
    "(rat \<Rightarrow> string) \<Rightarrow> string list \<Rightarrow> addr \<Rightarrow> heap \<Rightarrow> heap \<times> (error + addr)" where
  "BooleanNormalizer_transform_h repr cols X0 =
     h_bind (h_copy X0) (\<lambda>X.
     h_bind (h_for_each cols
              (\<lambda>col.
                 h_bind (h_read X (\<lambda>t. getitem t col)) (\<lambda>s.
                 h_setitem X col (map boolean_code (map str_lower (map (astype_str repr) s)))))) (\<lambda>_.
     h_return X))"

definition DateFeatureExtractor_transform_h ::
    "(series \<Rightarrow> timestamp option list) \<Rightarrow> string \<Rightarrow> string \<Rightarrow> addr \<Rightarrow> heap
       \<Rightarrow> heap \<times> (error + addr)" where
  "DateFeatureExtractor_transform_h to_datetime column prefix X0 =
     h_bind (h_copy X0) (\<lambda>X.
     h_bind (h_read X (\<lambda>t. getitem t column)) (\<lambda>s.
     h_bind (h_return (to_datetime s)) (\<lambda>dates.
     h_bind (h_setitem X (prefix @ ''Year'') (dt_year dates)) (\<lambda>_.
     h_bind (h_setitem X (prefix @ ''Month'') (dt_month dates)) (\<lambda>_.
     h_drop X [column])))))"

definition OutlierClipper_transform_h ::
    "OutlierClipper \<Rightarrow> addr \<Rightarrow> heap \<Rightarrow> heap \<times> (error + addr)" where
  "OutlierClipper_transform_h self X0 =
     h_bind (h_copy X0) (\<lambda>X.
     h_bind (h_for_each (bounds self)
              (\<lambda>(col, (lower, upper)).
                 h_bind (h_read X (\<lambda>t. getitem t col)) (\<lambda>s.
                 h_bind (h_lift (clip s lower upper)) (\<lambda>s'.
                 h_setitem X col s')))) (\<lambda>_.
     h_return X))"

definition ColumnDropper_transform_h ::
    "string list \<Rightarrow> addr \<Rightarrow> heap \<Rightarrow> heap \<times> (error + addr)" where
  "ColumnDropper_transform_h cols X0 =
     h_bind (h_copy X0) (\<lambda>X. h_drop_ignore X cols)"

definition transform_h ::
    "(rat \<Rightarrow> string) \<Rightarrow> (series \<Rightarrow> timestamp option list) \<Rightarrow> transformer \<Rightarrow> addr \<Rightarrow> heap
       \<Rightarrow> heap \<times> (error + addr)" where
  "transform_h repr to_datetime u X0 =
     (case u of
        AreaFeatureSelector area_columns \<Rightarrow> AreaFeatureSelector_transform_h area_columns X0
      | RareCategoryGrouper_unit self \<Rightarrow> RareCategoryGrouper_transform_h self X0
      | BooleanNormalizer cols \<Rightarrow> BooleanNormalizer_transform_h repr cols X0
      | DateFeatureExtractor column prefix \<Rightarrow>
          DateFeatureExtractor_transform_h to_datetime column prefix X0
      | OutlierClipper_unit self \<Rightarrow> OutlierClipper_transform_h self X0
      | ColumnDropper cols \<Rightarrow> ColumnDropper_transform_h cols X0)"

text \<open>
  Every column has \<open>k\<close> cells; and a store-level method computes what a value-level function
  computes, touching no frame that was in the store.
\<close>

definition aligned :: "nat \<Rightarrow> table \<Rightarrow> bool" where
  "aligned k X \<longleftrightarrow> list_all (\<lambda>(n, s). length s = k) (columns X)"

definition simulates ::
    "(addr \<Rightarrow> heap \<Rightarrow> heap \<times> (error + addr)) \<Rightarrow> (table \<Rightarrow> error + table) \<Rightarrow> bool" where
  "simulates m f \<longleftrightarrow>
     (\<forall>h a. a < length h \<longrightarrow>
        (\<exists>ts. fst (m a h) = h @ ts \<and>
           (case f (h ! a) of
              Inl e \<Rightarrow> snd (m a h) = Inl e
            | Inr t \<Rightarrow> \<exists>x. snd (m a h) = Inr x \<and> length h \<le> x \<and> x < length h + length ts \<and>
                         (h @ ts) ! x = t)))"

section \<open>Loops over columns\<close>

lemma bind_err_simps [simp]:
  "bind_err (Inl e) f = Inl e" "bind_err (Inr x) f = f x"
  by (simp_all add: bind_err_def)

lemma map_of_assign: "map_of (assign k v kvs) k' = (if k' = k then Some v else map_of kvs k')"
  by (induction kvs) auto

lemma map_fst_assign:
  "map fst (assign k v kvs) = (if k \<in> set (map fst kvs) then map fst kvs else map fst kvs @ [k])"
  by (induction kvs) force+

lemma assign_present:
  "distinct (map fst kvs) \<Longrightarrow> map_of kvs k = Some v0 \<Longrightarrow>
   assign k v kvs = map (\<lambda>(n, s). (n, if n = k then v else s)) kvs"
proof (induction kvs)
  case Nil
  then show ?case by simp
next
  case (Cons p kvs)
  obtain n s where p: "p = (n, s)" by (cases p)
  show ?case
  proof (cases "n = k")
    case True
    with Cons.prems p have "k \<notin> fst ` set kvs" by auto
    then have "map (\<lambda>(n, s). (n, if n = k then v else s)) kvs = kvs"
      by (induction kvs) auto
    with True p show ?thesis by simp
  next
    case False
    with Cons p show ?thesis by simp
  qed
qed

lemma find_key_None: "find (\<lambda>it. key it = n) items = None \<longleftrightarrow> n \<notin> key ` set items"
  by (induction items) auto

lemma find_key_Some:
  "distinct (map key items) \<Longrightarrow> it \<in> set items \<Longrightarrow> find (\<lambda>x. key x = key it) items = Some it"
  by (induction items) auto

lemma getitem_Inr_iff: "getitem X c = Inr s \<longleftrightarrow> map_of (columns X) c = Some s"
  by (simp add: getitem_def split: option.splits)

lemma getitem_present:
  "c \<in> set (column_names X) \<Longrightarrow> \<exists>s. getitem X c = Inr s"
  by (cases "map_of (columns X) c") (auto simp: getitem_def column_names_def map_of_eq_None_iff)

lemma getitem_absent:
  "c \<notin> set (column_names X) \<Longrightarrow> getitem X c = Inl KeyError"
  by (cases "map_of (columns X) c") (force simp: getitem_def column_names_def dest: map_of_SomeD)+

lemma for_each_columns:
  fixes key :: "'a \<Rightarrow> string"
  assumes "distinct (map key items)"
    and "distinct (column_names X)"
    and "key ` set items \<subseteq> set (column_names X)"
    and "\<And>it s. it \<in> set items \<Longrightarrow> getitem X (key it) = Inr s \<Longrightarrow> G it s = Inr (F it s)"
  shows "for_each items
           (\<lambda>it X. bind_err (getitem X (key it)) (\<lambda>s.
                    bind_err (G it s) (\<lambda>s'. Inr (setitem X (key it) s')))) X
         = Inr (update_columns key F items X)"
  using assms
proof (induction items arbitrary: X)
  case Nil
  show ?case by (simp add: update_columns_def)
next
  case (Cons it items)
  let ?body = "\<lambda>it X. bind_err (getitem X (key it)) (\<lambda>s.
                    bind_err (G it s) (\<lambda>s'. Inr (setitem X (key it) s')))"
  from Cons.prems(3) obtain s where s: "getitem X (key it) = Inr s"
    using getitem_present [of "key it" X] by auto
  then have ms: "map_of (columns X) (key it) = Some s" by (simp add: getitem_Inr_iff)
  have G: "G it s = Inr (F it s)" using Cons.prems(4) s by simp
  define X1 where "X1 = setitem X (key it) (F it s)"
  have dX: "distinct (map fst (columns X))" using Cons.prems(2) by (simp add: column_names_def)
  have cols1: "columns X1 = map (\<lambda>(n, s'). (n, if n = key it then F it s else s')) (columns X)"
    unfolding X1_def setitem_def using assign_present [OF dX ms] by simp
  have names1: "column_names X1 = column_names X"
    by (simp add: column_names_def cols1 case_prod_unfold comp_def)
  have get1: "getitem X1 c = getitem X c" if "c \<noteq> key it" for c
    using that by (simp add: getitem_def X1_def setitem_def map_of_assign)
  have step: "for_each (it # items) ?body X = for_each items ?body X1"
    by (simp add: s G X1_def)
  have IH: "for_each items ?body X1 = Inr (update_columns key F items X1)"
  proof (rule Cons.IH)
    show "distinct (map key items)" using Cons.prems(1) by simp
    show "distinct (column_names X1)" using Cons.prems(2) names1 by simp
    show "key ` set items \<subseteq> set (column_names X1)" using Cons.prems(3) names1 by auto
    fix it' s' assume a: "it' \<in> set items" "getitem X1 (key it') = Inr s'"
    then have "key it' \<noteq> key it" using Cons.prems(1) by (auto simp: image_iff)
    with a get1 have "getitem X (key it') = Inr s'" by simp
    with a Cons.prems(4) show "G it' s' = Inr (F it' s')" by simp
  qed
  have notin: "find (\<lambda>x. key x = key it) items = None"
    using Cons.prems(1) by (simp add: find_key_None)
  have "update_columns key F items X1 = update_columns key F (it # items) X"
  proof -
    have "map (\<lambda>(n, s). (n, case find (\<lambda>it. key it = n) items of None \<Rightarrow> s | Some it \<Rightarrow> F it s))
            (columns X1)
        = map (\<lambda>(n, s). (n, case find (\<lambda>it. key it = n) (it # items) of None \<Rightarrow> s | Some it \<Rightarrow> F it s))
            (columns X)"
      unfolding cols1 map_map
    proof (rule map_cong [OF refl])
      fix p assume p: "p \<in> set (columns X)"
      obtain n s' where ps: "p = (n, s')" by (cases p)
      show "((\<lambda>(n, s). (n, case find (\<lambda>it. key it = n) items of None \<Rightarrow> s | Some it \<Rightarrow> F it s)) \<circ>
             (\<lambda>(n, s'). (n, if n = key it then F it s else s'))) p
          = (\<lambda>(n, s). (n, case find (\<lambda>it. key it = n) (it # items) of None \<Rightarrow> s | Some it \<Rightarrow> F it s)) p"
      proof (cases "n = key it")
        case True
        with p ps dX ms have "s' = s" by (auto dest: map_of_is_SomeI)
        with True ps notin show ?thesis by simp
      next
        case False
        then have "key it \<noteq> n" by auto
        with ps show ?thesis by simp
      qed
    qed
    then show ?thesis by (simp add: update_columns_def X1_def setitem_def)
  qed
  with step IH show ?case by simp
qed


lemma distinct_unique_values: "distinct (unique_values s)"
  by (simp add: unique_values_def)

lemma set_unique_values: "set (unique_values s) = set s"
  by (simp add: unique_values_def)

lemma count_list_dropna:
  "v \<noteq> Missing \<Longrightarrow> count_list (filter (\<lambda>c. c \<noteq> Missing) s) v = length (filter (\<lambda>c. c = v) s)"
  by (induction s) auto

lemma distinct_map_fst_insort:
  "distinct (map fst (insort_key k p ps)) \<longleftrightarrow> fst p \<notin> fst ` set ps \<and> distinct (map fst ps)"
  by (induction ps) (auto simp: set_insort_key)

lemma distinct_map_fst_sort: "distinct (map fst (sort_key k ps)) \<longleftrightarrow> distinct (map fst ps)"
  by (induction ps) (auto simp: distinct_map_fst_insort)

lemma value_counts_normalize_set:
  "set (value_counts_normalize s) =
     (\<lambda>v. (v, relative_frequency s v)) ` (set s - {Missing})"
proof -
  have "set (dropna s) = set s - {Missing}" by (auto simp: dropna_def)
  moreover have "(\<lambda>p. case p of (v, c) \<Rightarrow> (v, of_nat c / of_nat (length (dropna s)))) (v, count_list (dropna s) v)
        = (v, relative_frequency s v)" if "v \<noteq> Missing" for v
    unfolding relative_frequency_def dropna_def count_list_dropna [OF that] by simp
  ultimately show ?thesis
    by (auto simp: value_counts_normalize_def Let_def set_unique_values image_iff)
qed

lemma value_counts_normalize_distinct: "distinct (map fst (value_counts_normalize s))"
proof -
  show ?thesis
    by (simp add: value_counts_normalize_def Let_def distinct_map_fst_sort comp_def
        case_prod_unfold distinct_unique_values)
qed

lemma frequent_index_set:
  "set (frequent_index mf (value_counts_normalize s)) =
     {v \<in> set s. v \<noteq> Missing \<and> relative_frequency s v \<ge> mf}"
  by (auto simp: frequent_index_def value_counts_normalize_set image_iff)

lemma frequent_index_distinct: "distinct (frequent_index mf (value_counts_normalize s))"
  unfolding frequent_index_def
  using value_counts_normalize_distinct [of s] by (simp add: distinct_map_filter)


lemma for_each_append:
  "for_each (xs @ ys) body s = bind_err (for_each xs body s) (for_each ys body)"
  by (induction xs arbitrary: s) (auto simp: bind_err_def split: sum.splits)

lemma fit_loop:
  assumes "set cs \<subseteq> set (column_names X)"
  shows "\<exists>g'. for_each cs
           (\<lambda>col self.
              bind_err (getitem X col) (\<lambda>s.
                Inr (self\<lparr>frequent_categories :=
                       assign col (frequent_index (min_frequency self) (value_counts_normalize s))
                         (frequent_categories self)\<rparr>))) g = Inr g'
         \<and> rcg_columns g' = rcg_columns g \<and> min_frequency g' = min_frequency g
         \<and> (\<forall>c. map_of (frequent_categories g') c =
               (if c \<in> set cs
                then map_option (\<lambda>s. frequent_index (min_frequency g) (value_counts_normalize s))
                       (map_of (columns X) c)
                else map_of (frequent_categories g) c))"
  using assms
proof (induction cs arbitrary: g rule: rev_induct)
  case Nil
  then show ?case by simp
next
  case (snoc c cs)
  let ?body = "\<lambda>col self.
              bind_err (getitem X col) (\<lambda>s.
                Inr (self\<lparr>frequent_categories :=
                       assign col (frequent_index (min_frequency self) (value_counts_normalize s))
                         (frequent_categories self)\<rparr>))"
  from snoc.IH [of g] snoc.prems obtain g1 where g1: "for_each cs ?body g = Inr g1"
    "rcg_columns g1 = rcg_columns g" "min_frequency g1 = min_frequency g"
    "\<And>c. map_of (frequent_categories g1) c =
               (if c \<in> set cs
                then map_option (\<lambda>s. frequent_index (min_frequency g) (value_counts_normalize s))
                       (map_of (columns X) c)
                else map_of (frequent_categories g) c)"
    by auto
  from snoc.prems obtain s where s: "getitem X c = Inr s"
    using getitem_present [of c X] by auto
  then have ms: "map_of (columns X) c = Some s" by (simp add: getitem_Inr_iff)
  show ?case
    by (simp add: for_each_append g1 s ms Let_def map_of_assign)
qed

lemma find_eq: "find (\<lambda>it. it = n) cs = (if n \<in> set cs then Some n else None)"
  by (induction cs) auto

lemma for_each_columns_idem:
  assumes "distinct (column_names X)"
    and "set cs \<subseteq> set (column_names X)"
    and "\<And>c s. c \<in> set cs \<Longrightarrow> G c s = Inr (F c s)"
    and "\<And>c s. c \<in> set cs \<Longrightarrow> F c (F c s) = F c s"
  shows "for_each cs
           (\<lambda>c X. bind_err (getitem X c) (\<lambda>s.
                   bind_err (G c s) (\<lambda>s'. Inr (setitem X c s')))) X
         = Inr (update_columns (\<lambda>c. c) F cs X)"
  using assms
proof (induction cs arbitrary: X)
  case Nil
  show ?case by (simp add: update_columns_def)
next
  case (Cons c cs)
  let ?body = "\<lambda>c X. bind_err (getitem X c) (\<lambda>s.
                   bind_err (G c s) (\<lambda>s'. Inr (setitem X c s')))"
  from Cons.prems(2) obtain s where s: "getitem X c = Inr s"
    using getitem_present [of c X] by auto
  then have ms: "map_of (columns X) c = Some s" by (simp add: getitem_Inr_iff)
  define X1 where "X1 = setitem X c (F c s)"
  have dX: "distinct (map fst (columns X))" using Cons.prems(1) by (simp add: column_names_def)
  have cols1: "columns X1 = map (\<lambda>(n, s'). (n, if n = c then F c s else s')) (columns X)"
    unfolding X1_def setitem_def using assign_present [OF dX ms] by simp
  have names1: "column_names X1 = column_names X"
    by (simp add: column_names_def cols1 case_prod_unfold comp_def)
  have step: "for_each (c # cs) ?body X = for_each cs ?body X1"
    using Cons.prems(3) [of c s] by (simp add: s X1_def)
  have IH: "for_each cs ?body X1 = Inr (update_columns (\<lambda>c. c) F cs X1)"
    using Cons.prems by (intro Cons.IH) (auto simp: names1)
  have "update_columns (\<lambda>c. c) F cs X1 = update_columns (\<lambda>c. c) F (c # cs) X"
  proof -
    have "map (\<lambda>(n, s). (n, case find (\<lambda>it. it = n) cs of None \<Rightarrow> s | Some it \<Rightarrow> F it s))
            (columns X1)
        = map (\<lambda>(n, s). (n, case find (\<lambda>it. it = n) (c # cs) of None \<Rightarrow> s | Some it \<Rightarrow> F it s))
            (columns X)"
      unfolding cols1 map_map
    proof (rule map_cong [OF refl])
      fix p assume p: "p \<in> set (columns X)"
      obtain n s' where ps: "p = (n, s')" by (cases p)
      show "((\<lambda>(n, s). (n, case find (\<lambda>it. it = n) cs of None \<Rightarrow> s | Some it \<Rightarrow> F it s)) \<circ>
             (\<lambda>(n, s'). (n, if n = c then F c s else s'))) p
          = (\<lambda>(n, s). (n, case find (\<lambda>it. it = n) (c # cs) of None \<Rightarrow> s | Some it \<Rightarrow> F it s)) p"
      proof (cases "n = c")
        case True
        with p ps dX ms have "s' = s" by (auto dest: map_of_is_SomeI)
        with True ps Cons.prems(4) [of c s] show ?thesis by (simp add: find_eq)
      next
        case False
        then have "c \<noteq> n" by auto
        with ps show ?thesis by simp
      qed
    qed
    then show ?thesis by (simp add: update_columns_def X1_def setitem_def)
  qed
  with step IH show ?case by simp
qed

lemma map_of_update_columns:
  "map_of (map (\<lambda>(n, s). (n, f n s)) kvs) n = map_option (f n) (map_of kvs n)"
  by (induction kvs) auto

lemma getitem_update_columns:
  "getitem (update_columns key F items X) n =
     (case getitem X n of Inl e \<Rightarrow> Inl e
      | Inr s \<Rightarrow> Inr (case find (\<lambda>it. key it = n) items of None \<Rightarrow> s | Some it \<Rightarrow> F it s))"
  by (simp add: getitem_def update_columns_def map_of_update_columns split: option.splits)

lemma index_update_columns [simp]: "index (update_columns key F items X) = index X"
  by (simp add: update_columns_def)

lemma column_names_update_columns [simp]:
  "column_names (update_columns key F items X) = column_names X"
  by (simp add: update_columns_def column_names_def case_prod_unfold comp_def)

lemma fit_loop_fail:
  assumes "\<not> set cs \<subseteq> set (column_names X)"
  shows "for_each cs
           (\<lambda>col self.
              bind_err (getitem X col) (\<lambda>s.
                Inr (self\<lparr>frequent_categories :=
                       assign col (frequent_index (min_frequency self) (value_counts_normalize s))
                         (frequent_categories self)\<rparr>))) g = Inl KeyError"
  using assms
proof (induction cs arbitrary: g)
  case Nil
  then show ?case by simp
next
  case (Cons c cs)
  show ?case
  proof (cases "c \<in> set (column_names X)")
    case True
    then obtain s where "getitem X c = Inr s" using getitem_present by blast
    moreover from True Cons.prems have "\<not> set cs \<subseteq> set (column_names X)" by simp
    ultimately show ?thesis using Cons.IH by simp
  next
    case False
    then show ?thesis by (simp add: getitem_absent)
  qed
qed

lemma where_other_isin:
  "where_other s (isin s cats) other = map (\<lambda>c. if c \<in> set cats then c else other) s"
  by (simp add: where_other_def isin_def zip_map2 zip_same_conv_map comp_def)

lemma dict_get_Inr_iff: "dict_get d k = Inr v \<longleftrightarrow> map_of d k = Some v"
  by (simp add: dict_get_def split: option.splits)

lemma fit_characterisation:
  assumes "RareCategoryGrouper_fit g X = Inr g'" and "col \<in> set (rcg_columns g)"
  shows "rcg_columns g' = rcg_columns g \<and> min_frequency g' = min_frequency g \<and>
         (\<exists>s. getitem X col = Inr s \<and>
              dict_get (frequent_categories g') col =
                Inr (frequent_index (min_frequency g) (value_counts_normalize s)))"
proof -
  have sub: "set (rcg_columns g) \<subseteq> set (column_names X)"
    using assms(1) fit_loop_fail [of "rcg_columns g" X g]
    by (auto simp: RareCategoryGrouper_fit_def copy_def Let_def)
  from fit_loop [OF sub, of g] assms(1) have
    "rcg_columns g' = rcg_columns g" "min_frequency g' = min_frequency g"
    and m: "\<And>c. map_of (frequent_categories g') c =
               (if c \<in> set (rcg_columns g)
                then map_option (\<lambda>s. frequent_index (min_frequency g) (value_counts_normalize s))
                       (map_of (columns X) c)
                else map_of (frequent_categories g) c)"
    by (auto simp: RareCategoryGrouper_fit_def copy_def Let_def)
  moreover from sub assms(2) obtain s where s: "getitem X col = Inr s"
    using getitem_present [of col X] by auto
  ultimately show ?thesis
    using assms(2) by (auto simp: dict_get_Inr_iff getitem_Inr_iff)
qed

lemma fit_returns:
  "set (rcg_columns g) \<subseteq> set (column_names X) \<Longrightarrow> \<exists>g'. RareCategoryGrouper_fit g X = Inr g'"
  using fit_loop [of "rcg_columns g" X g]
  by (auto simp: RareCategoryGrouper_fit_def copy_def Let_def)

section \<open>RareCategoryGrouper: what fit retains\<close>

text \<open>
  Claim C6. When every configured column is in the frame, \<open>fit\<close> returns, and for each
  configured column it stores a duplicate-free list holding exactly the non-missing values of
  the column whose relative frequency is at least \<open>min_frequency\<close>. In particular a value
  whose relative frequency equals the threshold is retained.
\<close>

theorem fit_retains_at_or_above_threshold:
  assumes "set (rcg_columns g) \<subseteq> set (column_names X)"
    and "col \<in> set (rcg_columns g)"
  shows "\<exists>g' s cats.
           RareCategoryGrouper_fit g X = Inr g' \<and> getitem X col = Inr s \<and>
           dict_get (frequent_categories g') col = Inr cats \<and> distinct cats \<and>
           set cats = {v \<in> set s. v \<noteq> Missing \<and> relative_frequency s v \<ge> min_frequency g} \<and>
           (\<forall>v \<in> set s. v \<noteq> Missing \<and> relative_frequency s v = min_frequency g \<longrightarrow> v \<in> set cats)"
proof -
  from fit_returns [OF assms(1)] obtain g' where g': "RareCategoryGrouper_fit g X = Inr g'" ..
  from fit_characterisation [OF g' assms(2)] obtain s where
    s: "getitem X col = Inr s"
    "dict_get (frequent_categories g') col =
       Inr (frequent_index (min_frequency g) (value_counts_normalize s))"
    by auto
  show ?thesis
    using g' s by (auto simp: frequent_index_set frequent_index_distinct)
qed

lemma fit_boundary_table:
  "RareCategoryGrouper_fit (RareCategoryGrouper_init [''City''] (1 / 3)) boundary_table =
     Inr \<lparr>rcg_columns = [''City''], min_frequency = 1 / 3,
          frequent_categories = [(''City'', [Str ''B'', Str ''A''])]\<rparr>"
  by (simp add: RareCategoryGrouper_fit_def RareCategoryGrouper_init_def boundary_table_def
      copy_def getitem_def value_counts_normalize_def dropna_def unique_values_def
      frequent_index_def Let_def)

theorem fit_retains_at_or_above_threshold_witness:
  "set (rcg_columns (RareCategoryGrouper_init [''City''] (1 / 3)))
     \<subseteq> set (column_names boundary_table) \<and>
   ''City'' \<in> set (rcg_columns (RareCategoryGrouper_init [''City''] (1 / 3))) \<and>
   RareCategoryGrouper_fit (RareCategoryGrouper_init [''City''] (1 / 3)) boundary_table =
     Inr \<lparr>rcg_columns = [''City''], min_frequency = 1 / 3,
          frequent_categories = [(''City'', [Str ''B'', Str ''A''])]\<rparr> \<and>
   relative_frequency [Str ''A'', Str ''B'', Str ''B'', Missing] (Str ''A'') = 1 / 3"
proof -
  have h1: "set (rcg_columns (RareCategoryGrouper_init [''City''] (1 / 3)))
     \<subseteq> set (column_names boundary_table)"
    by (simp add: RareCategoryGrouper_init_def boundary_table_def column_names_def)
  have h2: "''City'' \<in> set (rcg_columns (RareCategoryGrouper_init [''City''] (1 / 3)))"
    by (simp add: RareCategoryGrouper_init_def)
  have rf: "relative_frequency [Str ''A'', Str ''B'', Str ''B'', Missing] (Str ''A'') = 1 / 3"
    by (simp add: relative_frequency_def)
  show ?thesis
    using fit_retains_at_or_above_threshold [OF h1 h2] h1 h2 rf fit_boundary_table by simp
qed



lemma bind_err_assoc_Inr:
  "bind_err m (\<lambda>x. Inr (h (f x))) = bind_err (bind_err m (\<lambda>x. Inr (f x))) (\<lambda>y. Inr (h y))"
  by (simp add: bind_err_def split: sum.splits)

lemma RareCategoryGrouper_transform_fitted:
  assumes dT: "distinct (column_names T)"
    and sub: "set (rcg_columns g) \<subseteq> set (column_names T)"
    and fitted: "\<And>c. c \<in> set (rcg_columns g) \<Longrightarrow> dict_get (frequent_categories g) c = Inr (cats c)"
  shows "RareCategoryGrouper_transform g T =
           Inr (update_columns (\<lambda>c. c)
                  (\<lambda>c s. map (\<lambda>v. if v \<in> set (cats c) then v else Str ''Other'') s)
                  (rcg_columns g) T)"
proof -
  let ?G = "\<lambda>c s. bind_err (dict_get (frequent_categories g) c)
                     (\<lambda>cats. Inr (where_other s (isin s cats) (Str ''Other'')))"
  let ?F = "\<lambda>c s. map (\<lambda>v. if v \<in> set (cats c) then v else Str ''Other'') s"
  have body: "(\<lambda>col X. bind_err (getitem X col) (\<lambda>s.
                 bind_err (dict_get (frequent_categories g) col) (\<lambda>cats.
                   Inr (setitem X col (where_other s (isin s cats) (Str ''Other''))))))
            = (\<lambda>c X. bind_err (getitem X c) (\<lambda>s.
                 bind_err (?G c s) (\<lambda>s'. Inr (setitem X c s'))))"
    by (intro ext) (simp add: bind_err_def split: sum.splits)
  have G: "?G c s = Inr (?F c s)" if "c \<in> set (rcg_columns g)" for c s
    using fitted [OF that] by (simp add: where_other_isin)
  have idem: "?F c (?F c s) = ?F c s" for c s
    by simp
  show ?thesis
    unfolding RareCategoryGrouper_transform_def copy_def Let_def body
    by (rule for_each_columns_idem [OF dT sub G idem])
qed

section \<open>RareCategoryGrouper: transform\<close>

text \<open>
  Claim C1, amended. For a fitted grouper and a frame that has the configured columns,
  \<open>transform\<close> returns, and in each configured column a cell that is in the retained list is
  unchanged while every other cell becomes \<open>Other\<close>. The retained list never holds the missing
  value, so every missing cell of a configured column becomes \<open>Other\<close>.
\<close>

theorem transform_groups_missing_with_rare:
  assumes "RareCategoryGrouper_fit g X = Inr g'"
    and "distinct (column_names T)"
    and "set (rcg_columns g) \<subseteq> set (column_names T)"
    and "col \<in> set (rcg_columns g)"
  shows "\<exists>T' s s' cats.
           RareCategoryGrouper_transform g' T = Inr T' \<and> getitem T col = Inr s \<and>
           dict_get (frequent_categories g') col = Inr cats \<and> Missing \<notin> set cats \<and>
           getitem T' col = Inr s' \<and>
           s' = map (\<lambda>c. if c \<in> set cats then c else Str ''Other'') s \<and>
           (\<forall>i < length s. s ! i = Missing \<longrightarrow> s' ! i = Str ''Other'')"
proof -
  define cats where "cats c = frequent_index (min_frequency g)
      (value_counts_normalize (case getitem X c of Inr s \<Rightarrow> s | Inl e \<Rightarrow> []))" for c
  have cols: "rcg_columns g' = rcg_columns g"
    using fit_characterisation [OF assms(1) assms(4)] by simp
  have fitted: "dict_get (frequent_categories g') c = Inr (cats c)" if "c \<in> set (rcg_columns g')" for c
    using fit_characterisation [OF assms(1), of c] that by (auto simp: cats_def cols)
  have nm: "Missing \<notin> set (cats c)" for c
    by (simp add: cats_def frequent_index_set)
  from assms(3,4) obtain s where s: "getitem T col = Inr s"
    using getitem_present [of col T] by auto
  have tr: "RareCategoryGrouper_transform g' T =
           Inr (update_columns (\<lambda>c. c)
                  (\<lambda>c s. map (\<lambda>v. if v \<in> set (cats c) then v else Str ''Other'') s)
                  (rcg_columns g') T)"
    using assms(2,3) fitted by (intro RareCategoryGrouper_transform_fitted) (auto simp: cols)
  have "getitem (update_columns (\<lambda>c. c)
                  (\<lambda>c s. map (\<lambda>v. if v \<in> set (cats c) then v else Str ''Other'') s)
                  (rcg_columns g') T) col
        = Inr (map (\<lambda>c. if c \<in> set (cats col) then c else Str ''Other'') s)"
    using assms(4) by (simp add: getitem_update_columns s find_eq cols)
  with tr s fitted [of col] nm [of col] assms(4) show ?thesis
    by (auto simp: cols)
qed

lemma fit_city_table:
  "RareCategoryGrouper_fit (RareCategoryGrouper_init [''City''] (1 / 100)) city_table =
     Inr \<lparr>rcg_columns = [''City''], min_frequency = 1 / 100,
          frequent_categories = [(''City'', [Str ''A''])]\<rparr>"
  by (simp add: RareCategoryGrouper_fit_def RareCategoryGrouper_init_def city_table_def
      copy_def getitem_def value_counts_normalize_def dropna_def unique_values_def
      frequent_index_def Let_def)

lemma transform_city_table:
  "RareCategoryGrouper_transform
     \<lparr>rcg_columns = [''City''], min_frequency = 1 / 100,
      frequent_categories = [(''City'', [Str ''A''])]\<rparr> city_table =
     Inr \<lparr>index = [0, 1, 2],
          columns = [(''City'', [Str ''A'', Str ''A'', Str ''Other''])]\<rparr>"
  by (simp add: RareCategoryGrouper_transform_def city_table_def copy_def getitem_def
      dict_get_def setitem_def where_other_def isin_def Let_def)

theorem transform_missing_counterexample:
  "RareCategoryGrouper_fit (RareCategoryGrouper_init [''City''] (1 / 100)) city_table =
     Inr \<lparr>rcg_columns = [''City''], min_frequency = 1 / 100,
          frequent_categories = [(''City'', [Str ''A''])]\<rparr> \<and>
   getitem city_table ''City'' = Inr [Str ''A'', Str ''A'', Missing] \<and>
   RareCategoryGrouper_transform
     \<lparr>rcg_columns = [''City''], min_frequency = 1 / 100,
      frequent_categories = [(''City'', [Str ''A''])]\<rparr> city_table =
     Inr \<lparr>index = [0, 1, 2],
          columns = [(''City'', [Str ''A'', Str ''A'', Str ''Other''])]\<rparr>"
  using fit_city_table transform_city_table by (simp add: getitem_def city_table_def)

theorem transform_groups_missing_with_rare_witness:
  "RareCategoryGrouper_fit (RareCategoryGrouper_init [''City''] (1 / 100)) city_table =
     Inr \<lparr>rcg_columns = [''City''], min_frequency = 1 / 100,
          frequent_categories = [(''City'', [Str ''A''])]\<rparr> \<and>
   distinct (column_names city_table) \<and>
   set (rcg_columns (RareCategoryGrouper_init [''City''] (1 / 100)))
     \<subseteq> set (column_names city_table) \<and>
   ''City'' \<in> set (rcg_columns (RareCategoryGrouper_init [''City''] (1 / 100))) \<and>
   (\<exists>T'. RareCategoryGrouper_transform
     \<lparr>rcg_columns = [''City''], min_frequency = 1 / 100,
      frequent_categories = [(''City'', [Str ''A''])]\<rparr> city_table = Inr T' \<and>
     getitem T' ''City'' = Inr [Str ''A'', Str ''A'', Str ''Other''])"
proof -
  have h2: "distinct (column_names city_table)"
    by (simp add: city_table_def column_names_def)
  have h3: "set (rcg_columns (RareCategoryGrouper_init [''City''] (1 / 100)))
     \<subseteq> set (column_names city_table)"
    by (simp add: city_table_def column_names_def RareCategoryGrouper_init_def)
  have h4: "''City'' \<in> set (rcg_columns (RareCategoryGrouper_init [''City''] (1 / 100)))"
    by (simp add: RareCategoryGrouper_init_def)
  have g: "getitem city_table ''City'' = Inr [Str ''A'', Str ''A'', Missing]"
    by (simp add: getitem_def city_table_def)
  from transform_groups_missing_with_rare [OF fit_city_table h2 h3 h4]
  obtain T' s cats where
    "RareCategoryGrouper_transform
     \<lparr>rcg_columns = [''City''], min_frequency = 1 / 100,
      frequent_categories = [(''City'', [Str ''A''])]\<rparr> city_table = Inr T'"
    "getitem city_table ''City'' = Inr s"
    "dict_get (frequent_categories \<lparr>rcg_columns = [''City''], min_frequency = 1 / 100,
      frequent_categories = [(''City'', [Str ''A''])]\<rparr>) ''City'' = Inr cats"
    "getitem T' ''City'' = Inr (map (\<lambda>c. if c \<in> set cats then c else Str ''Other'') s)"
    by blast
  then have "RareCategoryGrouper_transform
     \<lparr>rcg_columns = [''City''], min_frequency = 1 / 100,
      frequent_categories = [(''City'', [Str ''A''])]\<rparr> city_table = Inr T' \<and>
     getitem T' ''City'' = Inr [Str ''A'', Str ''A'', Str ''Other'']"
    using g by (auto simp: dict_get_def)
  with fit_city_table h2 h3 h4 show ?thesis by blast
qed
section \<open>Transform before fit\<close>

text \<open>
  Claim C2, amended. On an OutlierClipper that was never fitted, \<open>transform\<close> returns the
  frame as it came: the loop runs over the empty dict of bounds. On a RareCategoryGrouper
  that was never fitted, \<open>transform\<close> raises KeyError at the first configured column (the
  column is absent from the frame or from the empty dict of categories), and returns the
  frame as it came when no column is configured. Neither raises NotFittedError.
\<close>

theorem unfitted_transform:
  "OutlierClipper_transform (OutlierClipper_init cols lq uq) X = Inr X \<and>
   RareCategoryGrouper_transform (RareCategoryGrouper_init cols' mf) X =
     (if cols' = [] then Inr X else Inl KeyError)"
proof -
  have "RareCategoryGrouper_transform (RareCategoryGrouper_init cols' mf) X =
     (if cols' = [] then Inr X else Inl KeyError)"
  proof (cases cols')
    case Nil
    then show ?thesis
      by (simp add: RareCategoryGrouper_transform_def RareCategoryGrouper_init_def copy_def)
  next
    case (Cons c cs)
    then show ?thesis
      by (cases "map_of (columns X) c")
        (simp_all add: RareCategoryGrouper_transform_def RareCategoryGrouper_init_def copy_def
          dict_get_def getitem_def)
  qed
  then show ?thesis
    by (simp add: OutlierClipper_transform_def OutlierClipper_init_def copy_def)
qed

theorem unfitted_transform_counterexample:
  "OutlierClipper_transform (OutlierClipper_init [''Price''] (1 / 100) (99 / 100)) price_table
     = Inr price_table \<and>
   RareCategoryGrouper_transform (RareCategoryGrouper_init [''City''] (1 / 100)) city_table
     = Inl KeyError \<and>
   RareCategoryGrouper_transform (RareCategoryGrouper_init [] (1 / 100)) city_table
     = Inr city_table \<and>
   KeyError \<noteq> NotFittedError"
  by (simp add: OutlierClipper_transform_def OutlierClipper_init_def copy_def
      RareCategoryGrouper_transform_def RareCategoryGrouper_init_def city_table_def getitem_def
      dict_get_def)

section \<open>BooleanNormalizer and DateFeatureExtractor\<close>

lemma for_each_map_columns:
  assumes "distinct cs" and "distinct (column_names X)"
    and "set cs \<subseteq> set (column_names X)"
  shows "for_each cs (\<lambda>c X. bind_err (getitem X c) (\<lambda>s. Inr (setitem X c (f c s)))) X
         = Inr (update_columns (\<lambda>c. c) f cs X)"
proof -
  have "for_each cs (\<lambda>c X. bind_err (getitem X c) (\<lambda>s.
            bind_err (Inr (f c s)) (\<lambda>s'. Inr (setitem X c s')))) X
         = Inr (update_columns (\<lambda>c. c) f cs X)"
    using assms by (intro for_each_columns) auto
  then show ?thesis by simp
qed

lemma str_lower_examples:
  "str_lower ''YES'' = ''yes''" "str_lower ''Yes'' = ''yes''" "str_lower ''yes'' = ''yes''"
  "str_lower ''maybe'' = ''maybe''" "str_lower ''nan'' = ''nan''"
  by (simp_all add: str_lower_def lower_char_def)

lemma boolean_code_cases:
  "boolean_code x =
     (if x \<in> {''yes'', ''true'', ''1''} then Num 1
      else if x \<in> {''no'', ''false'', ''0''} then Num 0 else Missing)"
  by (simp add: boolean_code_def true_values_def false_values_def)

text \<open>
  Claim C5. For a frame that has the configured columns (each configured once),
  \<open>transform\<close> returns, and every cell of a configured column becomes 1 when its lower-cased
  string form is \<open>yes\<close>, \<open>true\<close> or \<open>1\<close>, 0 when it is \<open>no\<close>, \<open>false\<close> or \<open>0\<close>, and
  missing otherwise; a missing cell stays missing; \<open>YES\<close>, \<open>yes\<close> and \<open>Yes\<close> all give 1 and
  \<open>maybe\<close> gives missing.
\<close>

theorem BooleanNormalizer_transform_values:
  assumes "distinct (column_names X)" and "distinct cols"
    and "set cols \<subseteq> set (column_names X)" and "col \<in> set cols"
  shows "\<exists>X' s s'.
           BooleanNormalizer_transform repr cols X = Inr X' \<and>
           getitem X col = Inr s \<and> getitem X' col = Inr s' \<and> length s' = length s \<and>
           (\<forall>i < length s.
              s' ! i \<in> {Num 0, Num 1, Missing} \<and>
              s' ! i =
                (if str_lower (astype_str repr (s ! i)) \<in> {''yes'', ''true'', ''1''} then Num 1
                 else if str_lower (astype_str repr (s ! i)) \<in> {''no'', ''false'', ''0''}
                 then Num 0 else Missing) \<and>
              (s ! i = Missing \<longrightarrow> s' ! i = Missing)) \<and>
           boolean_code (str_lower (astype_str repr (Str ''YES''))) = Num 1 \<and>
           boolean_code (str_lower (astype_str repr (Str ''yes''))) = Num 1 \<and>
           boolean_code (str_lower (astype_str repr (Str ''Yes''))) = Num 1 \<and>
           boolean_code (str_lower (astype_str repr (Str ''maybe''))) = Missing"
proof -
  let ?f = "\<lambda>c s. map boolean_code (map str_lower (map (astype_str repr) s))"
  have tr: "BooleanNormalizer_transform repr cols X = Inr (update_columns (\<lambda>c. c) ?f cols X)"
    unfolding BooleanNormalizer_transform_def copy_def Let_def
    by (rule for_each_map_columns [OF assms(2,1,3)])
  from assms(3,4) obtain s where s: "getitem X col = Inr s"
    using getitem_present [of col X] by auto
  have g': "getitem (update_columns (\<lambda>c. c) ?f cols X) col = Inr (?f col s)"
    using assms(4) by (simp add: getitem_update_columns s find_eq)
  have cellwise: "\<forall>i < length s.
              ?f col s ! i \<in> {Num 0, Num 1, Missing} \<and>
              ?f col s ! i =
                (if str_lower (astype_str repr (s ! i)) \<in> {''yes'', ''true'', ''1''} then Num 1
                 else if str_lower (astype_str repr (s ! i)) \<in> {''no'', ''false'', ''0''}
                 then Num 0 else Missing) \<and>
              (s ! i = Missing \<longrightarrow> ?f col s ! i = Missing)"
    by (auto simp: boolean_code_cases astype_str_def str_lower_examples)
  have ex: "boolean_code (str_lower (astype_str repr (Str ''YES''))) = Num 1"
    "boolean_code (str_lower (astype_str repr (Str ''yes''))) = Num 1"
    "boolean_code (str_lower (astype_str repr (Str ''Yes''))) = Num 1"
    "boolean_code (str_lower (astype_str repr (Str ''maybe''))) = Missing"
    by (simp_all add: boolean_code_cases astype_str_def str_lower_examples)
  have len: "length (?f col s) = length s" by simp
  from tr s g' cellwise ex len show ?thesis by blast
qed

theorem BooleanNormalizer_transform_values_witness:
  "distinct (column_names flag_table) \<and> distinct [''HasGarage''] \<and>
   set [''HasGarage''] \<subseteq> set (column_names flag_table) \<and>
   ''HasGarage'' \<in> set [''HasGarage''] \<and>
   (\<exists>X'. BooleanNormalizer_transform (\<lambda>r. ''0.5'') [''HasGarage''] flag_table = Inr X' \<and>
         getitem X' ''HasGarage'' = Inr [Num 1, Num 0, Missing, Missing, Num 1])"
proof -
  have h1: "distinct (column_names flag_table)"
    by (simp add: flag_table_def column_names_def)
  have h2: "distinct [''HasGarage'']" by simp
  have h3: "set [''HasGarage''] \<subseteq> set (column_names flag_table)"
    by (simp add: flag_table_def column_names_def)
  have h4: "''HasGarage'' \<in> set [''HasGarage'']" by simp
  have g: "getitem flag_table ''HasGarage''
             = Inr [Str ''YES'', Str ''no'', Str ''maybe'', Missing, Bool True]"
    by (simp add: getitem_def flag_table_def)
  from BooleanNormalizer_transform_values [OF h1 h2 h3 h4, of "\<lambda>r. ''0.5''"]
  obtain X' s s' where r:
    "BooleanNormalizer_transform (\<lambda>r. ''0.5'') [''HasGarage''] flag_table = Inr X'"
    "getitem flag_table ''HasGarage'' = Inr s" "getitem X' ''HasGarage'' = Inr s'"
    "length s' = length s"
    "\<forall>i < length s.
       s' ! i =
         (if str_lower (astype_str (\<lambda>r. ''0.5'') (s ! i)) \<in> {''yes'', ''true'', ''1''} then Num 1
          else if str_lower (astype_str (\<lambda>r. ''0.5'') (s ! i)) \<in> {''no'', ''false'', ''0''}
          then Num 0 else Missing)"
    by blast
  from r(2) g have s: "s = [Str ''YES'', Str ''no'', Str ''maybe'', Missing, Bool True]" by simp
  have "s' = [Num 1, Num 0, Missing, Missing, Num 1]"
  proof (rule nth_equalityI)
    show "length s' = length [Num 1, Num 0, Missing, Missing, Num 1]"
      using r(4) s by simp
    fix i assume "i < length s'"
    then have "i < 5" using r(4) s by simp
    then consider "i = 0" | "i = 1" | "i = 2" | "i = 3" | "i = 4" by linarith
    then show "s' ! i = [Num 1, Num 0, Missing, Missing, Num 1] ! i"
      using r(5) [unfolded s]
      by cases (simp_all add: astype_str_def str_lower_def lower_char_def)
  qed
  with r(1,3) h1 h2 h3 h4 show ?thesis by blast
qed

lemma getitem_setitem:
  "getitem (setitem X c s) c' = (if c' = c then Inr s else getitem X c')"
  by (simp add: getitem_def setitem_def map_of_assign)

lemma column_names_setitem:
  "set (column_names (setitem X c s)) = insert c (set (column_names X))"
  by (auto simp: column_names_def setitem_def map_fst_assign)

lemma map_of_filter_names:
  "map_of (filter (\<lambda>(n, s). n \<notin> A) kvs) c = (if c \<in> A then None else map_of kvs c)"
  by (induction kvs) auto

lemma getitem_drop_ignore:
  "getitem (drop_ignore X cols) c = (if c \<in> set cols then Inl KeyError else getitem X c)"
  by (simp add: getitem_def drop_ignore_def map_of_filter_names)

lemma column_names_drop_ignore:
  "column_names (drop_ignore X cols) = filter (\<lambda>n. n \<notin> set cols) (column_names X)"
  by (simp add: column_names_def drop_ignore_def filter_map comp_def case_prod_unfold)

lemma drop_columns_present:
  "set cols \<subseteq> set (column_names X) \<Longrightarrow> drop_columns X cols = Inr (drop_ignore X cols)"
  by (auto simp: drop_columns_def list_all_iff)



lemma lenient_example_to_datetime: "lenient_parser example_to_datetime"
  by (simp add: lenient_parser_def example_to_datetime_def)


section \<open>AreaFeatureSelector: the unified column\<close>

lemma those_map_Some:
  "(\<And>x. x \<in> set xs \<Longrightarrow> f x = Some (g x)) \<Longrightarrow> those (map f xs) = Some (map g xs)"
  by (induction xs) auto

lemma getitem_list_present:
  assumes "set cols \<subseteq> set (column_names X)"
  shows "getitem_list X cols =
           Inr (X\<lparr>columns := map (\<lambda>c. (c, case getitem X c of Inr s \<Rightarrow> s | Inl e \<Rightarrow> [])) cols\<rparr>)"
proof -
  have "map_option (Pair c) (map_of (columns X) c)
          = Some (c, case getitem X c of Inr s \<Rightarrow> s | Inl e \<Rightarrow> [])" if "c \<in> set cols" for c
  proof -
    from that assms obtain s where s: "getitem X c = Inr s" using getitem_present by blast
    then have "map_of (columns X) c = Some s" by (simp add: getitem_Inr_iff)
    with s show ?thesis by simp
  qed
  then have "those (map (\<lambda>c. map_option (Pair c) (map_of (columns X) c)) cols)
          = Some (map (\<lambda>c. (c, case getitem X c of Inr s \<Rightarrow> s | Inl e \<Rightarrow> [])) cols)"
    by (rule those_map_Some)
  then show ?thesis by (simp add: getitem_list_def)
qed

lemma bfill_row_length [simp]: "length (bfill_row r) = length r"
  by (induction r) (auto simp: Let_def)

lemma bfill_row_first: "r \<noteq> [] \<Longrightarrow> bfill_row r ! 0 = first_valid r"
proof (induction r)
  case Nil
  then show ?case by simp
next
  case (Cons c cs)
  show ?case
  proof (cases cs)
    case Nil
    then show ?thesis by simp
  next
    case (Cons d ds)
    with Cons.IH have "bfill_row cs ! 0 = first_valid cs" by simp
    moreover from Cons obtain y ys where "bfill_row cs = y # ys"
      by (cases "bfill_row cs") (auto simp: Let_def)
    ultimately show ?thesis by (simp add: Let_def)
  qed
qed

lemma first_valid_all_missing: "(\<And>c. c \<in> set r \<Longrightarrow> c = Missing) \<Longrightarrow> first_valid r = Missing"
  by (induction r) auto

lemma iloc_first_column_bfill:
  assumes "columns A \<noteq> []"
  shows "iloc_first_column (bfill_axis1 A) = Inr (map (\<lambda>i. first_valid (row_at A i)) [0..<nrows A])"
proof -
  from assms have ne: "row_at A i \<noteq> []" for i by (simp add: row_at_def)
  from assms have "[0..<length (columns A)] = 0 # [1..<length (columns A)]"
    by (simp add: upt_conv_Cons)
  then show ?thesis
    by (simp add: iloc_first_column_def bfill_axis1_def Let_def bfill_row_first [OF ne] comp_def)
qed

text \<open>
  Claim C4, amended. For a well-formed frame and a non-empty list of area columns that are
  all in the frame and do not include the name \<open>MainArea\<close>, \<open>transform\<close> returns; in every
  row \<open>MainArea\<close> is the first non-missing value of the listed columns in their listed order,
  and missing when all of them are missing in that row; none of the listed columns is in the
  output.
\<close>

theorem AreaFeatureSelector_transform_main_area:
  assumes "wf_table X" and "area_columns \<noteq> []"
    and "set area_columns \<subseteq> set (column_names X)"
    and "''MainArea'' \<notin> set area_columns"
  shows "\<exists>X' main.
           AreaFeatureSelector_transform area_columns X = Inr X' \<and>
           getitem X' ''MainArea'' = Inr main \<and> length main = nrows X \<and> index X' = index X \<and>
           (\<forall>i < nrows X.
              main ! i = first_valid
                (map (\<lambda>c. case getitem X c of Inr s \<Rightarrow> s ! i | Inl e \<Rightarrow> Missing) area_columns) \<and>
              ((\<forall>c \<in> set area_columns. \<forall>s. getitem X c = Inr s \<longrightarrow> s ! i = Missing)
                 \<longrightarrow> main ! i = Missing)) \<and>
           (\<forall>c \<in> set area_columns. c \<notin> set (column_names X'))"
proof -
  define A where
    "A = X\<lparr>columns := map (\<lambda>c. (c, case getitem X c of Inr s \<Rightarrow> s | Inl e \<Rightarrow> [])) area_columns\<rparr>"
  define main where "main = map (\<lambda>i. first_valid (row_at A i)) [0..<nrows A]"
  define X1 where "X1 = setitem X ''MainArea'' main"
  have gl: "getitem_list X area_columns = Inr A"
    unfolding A_def by (rule getitem_list_present [OF assms(3)])
  have "columns A \<noteq> []" using assms(2) by (simp add: A_def)
  then have il: "iloc_first_column (bfill_axis1 A) = Inr main"
    unfolding main_def by (rule iloc_first_column_bfill)
  have "set area_columns \<subseteq> set (column_names X1)"
    using assms(3) by (auto simp: X1_def column_names_setitem)
  then have dr: "drop_columns X1 area_columns = Inr (drop_ignore X1 area_columns)"
    by (rule drop_columns_present)
  have tr: "AreaFeatureSelector_transform area_columns X = Inr (drop_ignore X1 area_columns)"
    using dr by (simp add: AreaFeatureSelector_transform_def copy_def gl il Let_def X1_def)
  have nA: "nrows A = nrows X" by (simp add: A_def nrows_def)
  have row: "row_at A i =
      map (\<lambda>c. case getitem X c of Inr s \<Rightarrow> s ! i | Inl e \<Rightarrow> Missing) area_columns" for i
  proof -
    have "(case getitem X c of Inr s \<Rightarrow> s | Inl e \<Rightarrow> []) ! i
           = (case getitem X c of Inr s \<Rightarrow> s ! i | Inl e \<Rightarrow> Missing)" if "c \<in> set area_columns" for c
    proof -
      from that assms(3) obtain s where "getitem X c = Inr s" using getitem_present by blast
      then show ?thesis by simp
    qed
    then show ?thesis by (simp add: row_at_def A_def comp_def)
  qed
  have g: "getitem (drop_ignore X1 area_columns) ''MainArea'' = Inr main"
    using assms(4) by (simp add: getitem_drop_ignore X1_def getitem_setitem)
  have len: "length main = nrows X" by (simp add: main_def nA)
  have idx: "index (drop_ignore X1 area_columns) = index X"
    by (simp add: drop_ignore_def X1_def setitem_def)
  have cells: "main ! i = first_valid
                (map (\<lambda>c. case getitem X c of Inr s \<Rightarrow> s ! i | Inl e \<Rightarrow> Missing) area_columns)"
    if "i < nrows X" for i
  proof -
    from that have "main ! i = first_valid (row_at A i)" by (simp add: main_def nA)
    then show ?thesis by (simp only: row)
  qed
  have allmiss: "main ! i = Missing"
    if "i < nrows X" "\<forall>c \<in> set area_columns. \<forall>s. getitem X c = Inr s \<longrightarrow> s ! i = Missing" for i
  proof -
    have "first_valid
            (map (\<lambda>c. case getitem X c of Inr s \<Rightarrow> s ! i | Inl e \<Rightarrow> Missing) area_columns)
          = Missing"
      using that(2) by (intro first_valid_all_missing) (auto split: sum.splits)
    with cells [OF that(1)] show ?thesis by simp
  qed
  have gone: "\<forall>c \<in> set area_columns. c \<notin> set (column_names (drop_ignore X1 area_columns))"
    by (simp add: column_names_drop_ignore)
  from tr g len idx cells allmiss gone show ?thesis by blast
qed

theorem AreaFeatureSelector_counterexample:
  "AreaFeatureSelector_transform [] area_table = Inl IndexError \<and>
   AreaFeatureSelector_transform [''MainArea'', ''LivingArea''] area_table
     = Inr \<lparr>index = [0, 1, 2], columns = [(''Price'', [Num 1, Num 2, Num 3])]\<rparr> \<and>
   getitem \<lparr>index = [0, 1, 2], columns = [(''Price'', [Num 1, Num 2, Num 3])]\<rparr> ''MainArea''
     = Inl KeyError"
  by (simp add: AreaFeatureSelector_transform_def area_table_def copy_def getitem_list_def
      iloc_first_column_def bfill_axis1_def row_at_def nrows_def setitem_def drop_columns_def
      drop_ignore_def column_names_def getitem_def Let_def upt_conv_Cons)

theorem AreaFeatureSelector_transform_main_area_witness:
  "wf_table area_table \<and> [''LivingArea'', ''Price''] \<noteq> [] \<and>
   set [''LivingArea'', ''Price''] \<subseteq> set (column_names area_table) \<and>
   ''MainArea'' \<notin> set [''LivingArea'', ''Price''] \<and>
   AreaFeatureSelector_transform [''LivingArea'', ''Price''] area_table
     = Inr \<lparr>index = [0, 1, 2], columns = [(''MainArea'', [Num 55, Num 70, Num 3])]\<rparr>"
proof -
  have h1: "wf_table area_table"
    by (simp add: wf_table_def area_table_def column_names_def nrows_def)
  have h2: "[''LivingArea'', ''Price''] \<noteq> []" by simp
  have h3: "set [''LivingArea'', ''Price''] \<subseteq> set (column_names area_table)"
    by (simp add: area_table_def column_names_def)
  have h4: "''MainArea'' \<notin> set [''LivingArea'', ''Price'']" by simp
  have ev: "AreaFeatureSelector_transform [''LivingArea'', ''Price''] area_table
     = Inr \<lparr>index = [0, 1, 2], columns = [(''MainArea'', [Num 55, Num 70, Num 3])]\<rparr>"
    by (simp add: AreaFeatureSelector_transform_def area_table_def copy_def getitem_list_def
      iloc_first_column_def bfill_axis1_def row_at_def nrows_def setitem_def drop_columns_def
      drop_ignore_def column_names_def getitem_def Let_def upt_conv_Cons)
  from AreaFeatureSelector_transform_main_area [OF h1 h2 h3 h4] h1 h2 h3 h4 ev
  show ?thesis by blast
qed

section \<open>OutlierClipper: fit and transform\<close>





lemma floor_divide_numeral_rat:
  "\<lfloor>numeral a / numeral b :: rat\<rfloor> = numeral a div numeral b"
  by (metis floor_divide_of_int_eq of_int_numeral)

lemma fit_sample_inverted:
  "OutlierClipper_fit (OutlierClipper_init [''Price''] (9 / 10) (1 / 10)) sample_table
     = Inr \<lparr>oc_columns = [''Price''], lower_quantile = 9 / 10, upper_quantile = 1 / 10,
            bounds = [(''Price'', Some 37, Some 13)]\<rparr>"
  by (simp add: OutlierClipper_fit_def OutlierClipper_init_def sample_table_def copy_def
      getitem_def quantile_def linear_quantile_def Let_def floor_divide_numeral_rat)



lemma ordered_effective_bounds: "ordered_bounds (effective_bounds lower upper)"
  by (auto simp: ordered_bounds_def effective_bounds_def split: option.splits)

lemma clip_no_strings:
  "\<not> list_ex is_string s \<Longrightarrow>
   clip s lower upper =
     Inr (map (clip_cell (fst (effective_bounds lower upper)) (snd (effective_bounds lower upper))) s)"
  by (simp add: clip_def effective_bounds_def split: option.splits)

lemma clip_cell_missing_iff: "clip_cell lo hi c = Missing \<longleftrightarrow> c = Missing"
  by (cases c) (auto simp: clip_cell_def cell_number_def Let_def split: option.splits)

lemma clip_cell_string_iff: "is_string (clip_cell lo hi c) \<longleftrightarrow> is_string c"
  by (cases c) (auto simp: clip_cell_def cell_number_def is_string_def Let_def split: option.splits)

lemma clip_cell_within:
  "ordered_bounds (lo, hi) \<Longrightarrow> cell_number (clip_cell lo hi c) = Some r \<Longrightarrow>
   within_bounds (lo, hi) r"
  by (cases c)
    (auto simp: clip_cell_def cell_number_def within_bounds_def ordered_bounds_def Let_def
      split: option.splits if_splits)

lemma clip_cell_unchanged:
  "cell_number c = Some r \<Longrightarrow> within_bounds (lo, hi) r \<Longrightarrow> clip_cell lo hi c = c"
  by (auto simp: clip_cell_def within_bounds_def Let_def split: option.splits)

lemma clip_cell_not_number: "cell_number c = None \<Longrightarrow> clip_cell lo hi c = c"
  by (simp add: clip_cell_def)

lemma clip_cell_idem:
  assumes "ordered_bounds (lo, hi)"
  shows "clip_cell lo hi (clip_cell lo hi c) = clip_cell lo hi c"
proof (cases "cell_number (clip_cell lo hi c)")
  case None
  then show ?thesis by (rule clip_cell_not_number)
next
  case (Some r)
  with assms have "within_bounds (lo, hi) r" by (rule clip_cell_within)
  with Some show ?thesis by (rule clip_cell_unchanged)
qed

lemma clip_cell_no_bounds: "clip_cell None None c = c"
  by (simp add: clip_cell_def split: option.splits)

lemma update_columns_idem:
  assumes "\<And>it s. F it (F it s) = F it s"
  shows "update_columns key F items (update_columns key F items X) = update_columns key F items X"
  by (simp add: update_columns_def case_prod_unfold comp_def assms split: option.splits
        cong: map_cong)

lemma OutlierClipper_transform_result:
  assumes dk: "distinct (map fst (bounds c))"
    and dX: "distinct (column_names X)"
    and sub: "fst ` set (bounds c) \<subseteq> set (column_names X)"
    and num: "\<And>it s. it \<in> set (bounds c) \<Longrightarrow> getitem X (fst it) = Inr s \<Longrightarrow> \<not> list_ex is_string s"
  shows "OutlierClipper_transform c X =
           Inr (update_columns fst
                  (\<lambda>it. map (clip_cell (fst (effective_bounds (fst (snd it)) (snd (snd it))))
                                       (snd (effective_bounds (fst (snd it)) (snd (snd it))))))
                  (bounds c) X)"
proof -
  let ?G = "\<lambda>it s. clip s (fst (snd it)) (snd (snd it))"
  let ?F = "\<lambda>it. map (clip_cell (fst (effective_bounds (fst (snd it)) (snd (snd it))))
                                       (snd (effective_bounds (fst (snd it)) (snd (snd it)))))"
  have body: "(\<lambda>(col, (lower, upper)) X.
           bind_err (getitem X col) (\<lambda>s.
           bind_err (clip s lower upper) (\<lambda>s'.
             Inr (setitem X col s'))))
       = (\<lambda>it X. bind_err (getitem X (fst it)) (\<lambda>s.
                    bind_err (?G it s) (\<lambda>s'. Inr (setitem X (fst it) s'))))"
    by (simp add: fun_eq_iff case_prod_unfold)
  have G: "?G it s = Inr (?F it s)" if "it \<in> set (bounds c)" "getitem X (fst it) = Inr s" for it s
    using num [OF that] by (rule clip_no_strings)
  show ?thesis
    unfolding OutlierClipper_transform_def copy_def Let_def body
    by (rule for_each_columns [OF dk dX sub G])
qed

text \<open>
  Claim C3, amended. Take a clipper with any fitted bounds and a frame that has the fitted
  columns, none of them holding a string. Then \<open>transform\<close> returns; transforming its result
  again gives the same result; the rows and the column names are those of the input; and in
  each fitted column a cell is missing exactly when it was missing, every number of the
  result lies between the smaller and the larger of the two fitted bounds (between the lower
  and the upper bound when they are in order; a missing bound is no bound), and a number
  that already lies between them is unchanged.
\<close>

theorem OutlierClipper_transform_clips:
  assumes "distinct (map fst (bounds c))"
    and "distinct (column_names X)"
    and "fst ` set (bounds c) \<subseteq> set (column_names X)"
    and "\<forall>col \<in> fst ` set (bounds c). \<forall>s. getitem X col = Inr s \<longrightarrow> \<not> list_ex is_string s"
  shows "\<exists>X'. OutlierClipper_transform c X = Inr X' \<and> OutlierClipper_transform c X' = Inr X' \<and>
           index X' = index X \<and> column_names X' = column_names X \<and>
           (\<forall>col lower upper. (col, lower, upper) \<in> set (bounds c) \<longrightarrow>
              (\<exists>s s'. getitem X col = Inr s \<and> getitem X' col = Inr s' \<and> length s' = length s \<and>
                 (\<forall>i < length s.
                    (s' ! i = Missing \<longleftrightarrow> s ! i = Missing) \<and>
                    (\<forall>r. cell_number (s' ! i) = Some r \<longrightarrow>
                         within_bounds (effective_bounds lower upper) r) \<and>
                    (\<forall>r l u. cell_number (s' ! i) = Some r \<and> lower = Some l \<and> upper = Some u \<and>
                         l \<le> u \<longrightarrow> l \<le> r \<and> r \<le> u) \<and>
                    (\<forall>r. cell_number (s ! i) = Some r \<and>
                         within_bounds (effective_bounds lower upper) r \<longrightarrow> s' ! i = s ! i))))"
proof -
  let ?eb = "\<lambda>it :: string \<times> rat option \<times> rat option.
               effective_bounds (fst (snd it)) (snd (snd it))"
  let ?F = "\<lambda>it. map (clip_cell (fst (?eb it)) (snd (?eb it)))"
  define X' where "X' = update_columns fst ?F (bounds c) X"
  have num: "\<not> list_ex is_string s" if "it \<in> set (bounds c)" "getitem X (fst it) = Inr s" for it s
    using assms(4) that by force
  have tr: "OutlierClipper_transform c X = Inr X'"
    unfolding X'_def by (rule OutlierClipper_transform_result [OF assms(1-3) num])
  have names: "column_names X' = column_names X" and idx: "index X' = index X"
    by (simp_all add: X'_def)
  have get': "getitem X' (fst it) = Inr (?F it s)"
    if "it \<in> set (bounds c)" "getitem X (fst it) = Inr s" for it s
    using that by (simp add: X'_def getitem_update_columns find_key_Some [OF assms(1)])
  have num': "\<not> list_ex is_string s'" if "it \<in> set (bounds c)" "getitem X' (fst it) = Inr s'" for it s'
  proof -
    from that(1) assms(3) obtain s where s: "getitem X (fst it) = Inr s"
      using getitem_present [of "fst it" X] by auto
    with get' [OF that(1) s] that(2) have "s' = ?F it s" by simp
    with num [OF that(1) s] show ?thesis
      by (simp add: list_ex_iff clip_cell_string_iff)
  qed
  have "OutlierClipper_transform c X' = Inr (update_columns fst ?F (bounds c) X')"
    using assms(1-3) num' by (intro OutlierClipper_transform_result) (simp_all add: names)
  moreover have "update_columns fst ?F (bounds c) X' = X'"
    unfolding X'_def
  proof (rule update_columns_idem)
    fix it :: "string \<times> rat option \<times> rat option" and s
    have "ordered_bounds (fst (?eb it), snd (?eb it))"
      using ordered_effective_bounds [of "fst (snd it)" "snd (snd it)"] by simp
    then show "?F it (?F it s) = ?F it s"
      by (simp add: clip_cell_idem)
  qed
  ultimately have idem: "OutlierClipper_transform c X' = Inr X'" by simp
  have cols: "\<exists>s s'. getitem X col = Inr s \<and> getitem X' col = Inr s' \<and> length s' = length s \<and>
                 (\<forall>i < length s.
                    (s' ! i = Missing \<longleftrightarrow> s ! i = Missing) \<and>
                    (\<forall>r. cell_number (s' ! i) = Some r \<longrightarrow>
                         within_bounds (effective_bounds lower upper) r) \<and>
                    (\<forall>r l u. cell_number (s' ! i) = Some r \<and> lower = Some l \<and> upper = Some u \<and>
                         l \<le> u \<longrightarrow> l \<le> r \<and> r \<le> u) \<and>
                    (\<forall>r. cell_number (s ! i) = Some r \<and>
                         within_bounds (effective_bounds lower upper) r \<longrightarrow> s' ! i = s ! i))"
    if mem: "(col, lower, upper) \<in> set (bounds c)" for col lower upper
  proof -
    from mem assms(3) obtain s where s: "getitem X col = Inr s"
      using getitem_present [of col X] by force
    define lo hi where "lo = fst (effective_bounds lower upper)"
      and "hi = snd (effective_bounds lower upper)"
    have eb: "effective_bounds lower upper = (lo, hi)" by (simp add: lo_def hi_def)
    have ord: "ordered_bounds (lo, hi)"
      using ordered_effective_bounds [of lower upper] by (simp add: eb)
    from get' [OF mem] s have g: "getitem X' col = Inr (map (clip_cell lo hi) s)"
      by (simp add: lo_def hi_def)
    have cell: "(clip_cell lo hi x = Missing \<longleftrightarrow> x = Missing) \<and>
                    (\<forall>r. cell_number (clip_cell lo hi x) = Some r \<longrightarrow> within_bounds (lo, hi) r) \<and>
                    (\<forall>r l u. cell_number (clip_cell lo hi x) = Some r \<and> lower = Some l \<and>
                         upper = Some u \<and> l \<le> u \<longrightarrow> l \<le> r \<and> r \<le> u) \<and>
                    (\<forall>r. cell_number x = Some r \<and> within_bounds (lo, hi) r
                         \<longrightarrow> clip_cell lo hi x = x)" for x
    proof (intro conjI allI impI)
      show "clip_cell lo hi x = Missing \<longleftrightarrow> x = Missing" by (rule clip_cell_missing_iff)
    next
      fix r assume "cell_number (clip_cell lo hi x) = Some r"
      with ord show "within_bounds (lo, hi) r" by (rule clip_cell_within)
    next
      fix r l u
      assume a: "cell_number (clip_cell lo hi x) = Some r \<and> lower = Some l \<and> upper = Some u \<and> l \<le> u"
      then have "lo = Some l" "hi = Some u"
        by (simp_all add: lo_def hi_def effective_bounds_def)
      moreover from a ord have "within_bounds (lo, hi) r" by (intro clip_cell_within) auto
      ultimately show "l \<le> r" "r \<le> u" by (simp_all add: within_bounds_def)
    next
      fix r assume "cell_number x = Some r \<and> within_bounds (lo, hi) r"
      then show "clip_cell lo hi x = x" by (intro clip_cell_unchanged) auto
    qed
    have rows: "\<forall>i < length s.
                    (map (clip_cell lo hi) s ! i = Missing \<longleftrightarrow> s ! i = Missing) \<and>
                    (\<forall>r. cell_number (map (clip_cell lo hi) s ! i) = Some r \<longrightarrow>
                         within_bounds (effective_bounds lower upper) r) \<and>
                    (\<forall>r l u. cell_number (map (clip_cell lo hi) s ! i) = Some r \<and>
                         lower = Some l \<and> upper = Some u \<and> l \<le> u \<longrightarrow> l \<le> r \<and> r \<le> u) \<and>
                    (\<forall>r. cell_number (s ! i) = Some r \<and>
                         within_bounds (effective_bounds lower upper) r
                         \<longrightarrow> map (clip_cell lo hi) s ! i = s ! i)"
    proof (intro allI impI)
      fix i assume "i < length s"
      then have n: "map (clip_cell lo hi) s ! i = clip_cell lo hi (s ! i)" by simp
      show "(map (clip_cell lo hi) s ! i = Missing \<longleftrightarrow> s ! i = Missing) \<and>
                    (\<forall>r. cell_number (map (clip_cell lo hi) s ! i) = Some r \<longrightarrow>
                         within_bounds (effective_bounds lower upper) r) \<and>
                    (\<forall>r l u. cell_number (map (clip_cell lo hi) s ! i) = Some r \<and>
                         lower = Some l \<and> upper = Some u \<and> l \<le> u \<longrightarrow> l \<le> r \<and> r \<le> u) \<and>
                    (\<forall>r. cell_number (s ! i) = Some r \<and>
                         within_bounds (effective_bounds lower upper) r
                         \<longrightarrow> map (clip_cell lo hi) s ! i = s ! i)"
        unfolding n eb by (rule cell)
    qed
    have len: "length (map (clip_cell lo hi) s) = length s" by simp
    from s g len rows show ?thesis by (intro exI conjI)
  qed
  show ?thesis
  proof (intro exI [of _ X'] conjI allI impI)
    show "OutlierClipper_transform c X = Inr X'" by (rule tr)
    show "OutlierClipper_transform c X' = Inr X'" by (rule idem)
    show "index X' = index X" by (rule idx)
    show "column_names X' = column_names X" by (rule names)
    fix col lower upper assume "(col, lower, upper) \<in> set (bounds c)"
    then show "\<exists>s s'. getitem X col = Inr s \<and> getitem X' col = Inr s' \<and> length s' = length s \<and>
                 (\<forall>i < length s.
                    (s' ! i = Missing \<longleftrightarrow> s ! i = Missing) \<and>
                    (\<forall>r. cell_number (s' ! i) = Some r \<longrightarrow>
                         within_bounds (effective_bounds lower upper) r) \<and>
                    (\<forall>r l u. cell_number (s' ! i) = Some r \<and> lower = Some l \<and> upper = Some u \<and>
                         l \<le> u \<longrightarrow> l \<le> r \<and> r \<le> u) \<and>
                    (\<forall>r. cell_number (s ! i) = Some r \<and>
                         within_bounds (effective_bounds lower upper) r \<longrightarrow> s' ! i = s ! i))"
      by (rule cols)
  qed
qed

lemma transform_sample_inverted:
  "OutlierClipper_transform
     \<lparr>oc_columns = [''Price''], lower_quantile = 9 / 10, upper_quantile = 1 / 10,
      bounds = [(''Price'', Some 37, Some 13)]\<rparr> sample_table
   = Inr \<lparr>index = [0, 1, 2, 3, 4],
          columns = [(''Price'', [Num 13, Num 20, Missing, Num 37, Num 30])]\<rparr>"
  by (simp add: OutlierClipper_transform_def sample_table_def copy_def getitem_def setitem_def
      clip_def clip_cell_def cell_number_def is_string_def Let_def)

lemma fit_missing_table:
  "OutlierClipper_fit (OutlierClipper_init [''Price''] (1 / 100) (99 / 100)) missing_table
     = Inr \<lparr>oc_columns = [''Price''], lower_quantile = 1 / 100, upper_quantile = 99 / 100,
            bounds = [(''Price'', None, None)]\<rparr>"
  by (simp add: OutlierClipper_fit_def OutlierClipper_init_def missing_table_def copy_def
      getitem_def quantile_def Let_def)

lemma transform_no_bounds:
  "OutlierClipper_transform
     \<lparr>oc_columns = [''Price''], lower_quantile = 1 / 100, upper_quantile = 99 / 100,
      bounds = [(''Price'', None, None)]\<rparr> sample_table
   = Inr sample_table"
  by (simp add: OutlierClipper_transform_def sample_table_def copy_def getitem_def setitem_def
      clip_def clip_cell_def cell_number_def is_string_def Let_def)

theorem OutlierClipper_transform_counterexample:
  "OutlierClipper_fit (OutlierClipper_init [''Price''] (9 / 10) (1 / 10)) sample_table
     = Inr \<lparr>oc_columns = [''Price''], lower_quantile = 9 / 10, upper_quantile = 1 / 10,
            bounds = [(''Price'', Some 37, Some 13)]\<rparr> \<and>
   OutlierClipper_transform
     \<lparr>oc_columns = [''Price''], lower_quantile = 9 / 10, upper_quantile = 1 / 10,
      bounds = [(''Price'', Some 37, Some 13)]\<rparr> sample_table
     = Inr \<lparr>index = [0, 1, 2, 3, 4],
            columns = [(''Price'', [Num 13, Num 20, Missing, Num 37, Num 30])]\<rparr> \<and>
   \<not> ((37 :: rat) \<le> 20 \<and> (20 :: rat) \<le> 13) \<and>
   OutlierClipper_fit (OutlierClipper_init [''Price''] (1 / 100) (99 / 100)) missing_table
     = Inr \<lparr>oc_columns = [''Price''], lower_quantile = 1 / 100, upper_quantile = 99 / 100,
            bounds = [(''Price'', None, None)]\<rparr> \<and>
   OutlierClipper_transform
     \<lparr>oc_columns = [''Price''], lower_quantile = 1 / 100, upper_quantile = 99 / 100,
      bounds = [(''Price'', None, None)]\<rparr> sample_table
     = Inr sample_table"
  using fit_sample_inverted transform_sample_inverted fit_missing_table transform_no_bounds
  by simp

lemma fit_sample_quartiles:
  "OutlierClipper_fit (OutlierClipper_init [''Price''] (1 / 4) (3 / 4)) sample_table
     = Inr \<lparr>oc_columns = [''Price''], lower_quantile = 1 / 4, upper_quantile = 3 / 4,
            bounds = [(''Price'', Some (35 / 2), Some (65 / 2))]\<rparr>"
  by (simp add: OutlierClipper_fit_def OutlierClipper_init_def sample_table_def copy_def
      getitem_def quantile_def linear_quantile_def Let_def floor_divide_numeral_rat)

lemma transform_sample_quartiles:
  "OutlierClipper_transform
     \<lparr>oc_columns = [''Price''], lower_quantile = 1 / 4, upper_quantile = 3 / 4,
      bounds = [(''Price'', Some (35 / 2), Some (65 / 2))]\<rparr> sample_table
   = Inr \<lparr>index = [0, 1, 2, 3, 4],
          columns = [(''Price'', [Num (35 / 2), Num 20, Missing, Num (65 / 2), Num 30])]\<rparr>"
  by (simp add: OutlierClipper_transform_def sample_table_def copy_def getitem_def setitem_def
      clip_def clip_cell_def cell_number_def is_string_def Let_def)

theorem OutlierClipper_transform_clips_witness:
  "distinct (map fst (bounds \<lparr>oc_columns = [''Price''], lower_quantile = 1 / 4,
      upper_quantile = 3 / 4, bounds = [(''Price'', Some (35 / 2), Some (65 / 2))]\<rparr>)) \<and>
   distinct (column_names sample_table) \<and>
   \<not> list_ex is_string [Num 10, Num 20, Missing, Num 40, Num 30] \<and>
   OutlierClipper_fit (OutlierClipper_init [''Price''] (1 / 4) (3 / 4)) sample_table
     = Inr \<lparr>oc_columns = [''Price''], lower_quantile = 1 / 4, upper_quantile = 3 / 4,
            bounds = [(''Price'', Some (35 / 2), Some (65 / 2))]\<rparr> \<and>
   (\<exists>X'. OutlierClipper_transform
           \<lparr>oc_columns = [''Price''], lower_quantile = 1 / 4, upper_quantile = 3 / 4,
            bounds = [(''Price'', Some (35 / 2), Some (65 / 2))]\<rparr> sample_table = Inr X' \<and>
         OutlierClipper_transform
           \<lparr>oc_columns = [''Price''], lower_quantile = 1 / 4, upper_quantile = 3 / 4,
            bounds = [(''Price'', Some (35 / 2), Some (65 / 2))]\<rparr> X' = Inr X' \<and>
         getitem X' ''Price'' = Inr [Num (35 / 2), Num 20, Missing, Num (65 / 2), Num 30])"
proof -
  let ?c = "\<lparr>oc_columns = [''Price''], lower_quantile = 1 / 4, upper_quantile = 3 / 4,
            bounds = [(''Price'', Some (35 / 2), Some (65 / 2))]\<rparr>"
  have h1: "distinct (map fst (bounds ?c))" by simp
  have h2: "distinct (column_names sample_table)"
    by (simp add: sample_table_def column_names_def)
  have h3: "fst ` set (bounds ?c) \<subseteq> set (column_names sample_table)"
    by (simp add: sample_table_def column_names_def)
  have ns: "\<not> list_ex is_string [Num 10, Num 20, Missing, Num 40, Num 30]"
    by (simp add: is_string_def)
  have h4: "\<forall>col \<in> fst ` set (bounds ?c). \<forall>s. getitem sample_table col = Inr s
              \<longrightarrow> \<not> list_ex is_string s"
    using ns by (simp add: getitem_def sample_table_def)
  from OutlierClipper_transform_clips [OF h1 h2 h3 h4]
  obtain X' where X': "OutlierClipper_transform ?c sample_table = Inr X'"
    "OutlierClipper_transform ?c X' = Inr X'"
    by blast
  from X'(1) transform_sample_quartiles
  have "getitem X' ''Price'' = Inr [Num (35 / 2), Num 20, Missing, Num (65 / 2), Num 30]"
    by (auto simp: getitem_def)
  with X' h1 h2 ns fit_sample_quartiles show ?thesis by blast
qed

section \<open>Transform on the store: the input frame, row labels and row count\<close>

lemma aligned_setitem: "aligned k X \<Longrightarrow> length s = k \<Longrightarrow> aligned k (setitem X c s)"
proof -
  have "list_all (\<lambda>(n, s). length s = k) kvs \<Longrightarrow> length s = k \<Longrightarrow>
        list_all (\<lambda>(n, s). length s = k) (assign c s kvs)" for kvs
    by (induction kvs) auto
  then show "aligned k X \<Longrightarrow> length s = k \<Longrightarrow> aligned k (setitem X c s)"
    by (simp add: aligned_def setitem_def)
qed

lemma aligned_drop_ignore: "aligned k X \<Longrightarrow> aligned k (drop_ignore X cols)"
  by (simp add: aligned_def drop_ignore_def list_all_iff)

lemma aligned_getitem: "aligned k X \<Longrightarrow> getitem X c = Inr s \<Longrightarrow> length s = k"
  by (auto simp: aligned_def getitem_Inr_iff list_all_iff dest!: map_of_SomeD)

lemma index_setitem [simp]: "index (setitem X c s) = index X"
  by (simp add: setitem_def)

lemma index_drop_ignore [simp]: "index (drop_ignore X cols) = index X"
  by (simp add: drop_ignore_def)

lemma for_each_invariant:
  assumes "for_each xs body s = Inr s'" and "P s"
    and "\<And>x s s'. P s \<Longrightarrow> body x s = Inr s' \<Longrightarrow> P s'"
  shows "P s'"
  using assms(1,2)
proof (induction xs arbitrary: s)
  case Nil
  then show ?case by simp
next
  case (Cons x xs)
  from Cons.prems(1) obtain s1 where s1: "body x s = Inr s1" "for_each xs body s1 = Inr s'"
    by (cases "body x s") auto
  from assms(3) [OF Cons.prems(2) s1(1)] have "P s1" .
  with s1(2) show ?case by (rule Cons.IH)
qed

lemma column_loop_preserves:
  assumes "for_each items
             (\<lambda>it X. bind_err (getitem X (key it)) (\<lambda>s.
                      bind_err (G it s) (\<lambda>s'. Inr (setitem X (key it) s')))) X = Inr X'"
    and "\<And>it s s'. G it s = Inr s' \<Longrightarrow> length s' = length s"
    and "aligned k X"
  shows "index X' = index X \<and> aligned k X'"
proof (rule for_each_invariant [OF assms(1), where P = "\<lambda>Y. index Y = index X \<and> aligned k Y"])
  show "index X = index X \<and> aligned k X" using assms(3) by simp
next
  fix it Y Y'
  assume P: "index Y = index X \<and> aligned k Y"
    and b: "bind_err (getitem Y (key it)) (\<lambda>s.
              bind_err (G it s) (\<lambda>s'. Inr (setitem Y (key it) s'))) = Inr Y'"
  from b obtain s where s: "getitem Y (key it) = Inr s"
    by (cases "getitem Y (key it)") auto
  with b obtain s' where s': "G it s = Inr s'" "Y' = setitem Y (key it) s'"
    by (cases "G it s") auto
  from P s have "length s = k" by (auto dest: aligned_getitem)
  with assms(2) [OF s'(1)] have "length s' = k" by simp
  with P s'(2) show "index Y' = index X \<and> aligned k Y'"
    by (simp add: aligned_setitem)
qed

lemma clip_length: "clip s lower upper = Inr s' \<Longrightarrow> length s' = length s"
  by (auto simp: clip_def Let_def split: if_splits prod.splits)

lemma RareCategoryGrouper_transform_preserves:
  assumes "RareCategoryGrouper_transform self X = Inr X'" and "aligned k X"
  shows "index X' = index X \<and> aligned k X'"
proof -
  let ?G = "\<lambda>c s. bind_err (dict_get (frequent_categories self) c)
                     (\<lambda>cats. Inr (where_other s (isin s cats) (Str ''Other'')))"
  have body: "(\<lambda>col X. bind_err (getitem X col) (\<lambda>s.
                 bind_err (dict_get (frequent_categories self) col) (\<lambda>cats.
                   Inr (setitem X col (where_other s (isin s cats) (Str ''Other''))))))
            = (\<lambda>c X. bind_err (getitem X c) (\<lambda>s.
                 bind_err (?G c s) (\<lambda>s'. Inr (setitem X c s'))))"
    by (intro ext) (simp add: bind_err_def split: sum.splits)
  have len: "length s' = length s" if "?G c s = Inr s'" for c s s'
    using that by (cases "dict_get (frequent_categories self) c") (auto simp: where_other_isin)
  from assms(1) show ?thesis
    unfolding RareCategoryGrouper_transform_def copy_def Let_def body
    by (rule column_loop_preserves [where key = "\<lambda>c. c", OF _ len assms(2)])
qed

lemma BooleanNormalizer_transform_preserves:
  assumes "BooleanNormalizer_transform repr cols X = Inr X'" and "aligned k X"
  shows "index X' = index X \<and> aligned k X'"
proof -
  let ?G = "\<lambda>c :: string. \<lambda>s. (Inr (map boolean_code (map str_lower (map (astype_str repr) s)))
                 :: error + series)"
  have len: "length s' = length s" if "?G c s = Inr s'" for c s s'
    using that by auto
  have "for_each cols (\<lambda>c X. bind_err (getitem X c) (\<lambda>s.
                 bind_err (?G c s) (\<lambda>s'. Inr (setitem X c s')))) X = Inr X'"
    using assms(1) by (simp add: BooleanNormalizer_transform_def copy_def)
  then show ?thesis
    by (rule column_loop_preserves [where key = "\<lambda>c. c", OF _ len assms(2)])
qed

lemma OutlierClipper_transform_preserves:
  assumes "OutlierClipper_transform self X = Inr X'" and "aligned k X"
  shows "index X' = index X \<and> aligned k X'"
proof -
  let ?G = "\<lambda>it s. clip s (fst (snd it)) (snd (snd it))"
  have body: "(\<lambda>(col, (lower, upper)) X.
           bind_err (getitem X col) (\<lambda>s.
           bind_err (clip s lower upper) (\<lambda>s'.
             Inr (setitem X col s'))))
       = (\<lambda>it X. bind_err (getitem X (fst it)) (\<lambda>s.
                    bind_err (?G it s) (\<lambda>s'. Inr (setitem X (fst it) s'))))"
    by (simp add: fun_eq_iff case_prod_unfold)
  have len: "length s' = length s" if "?G it s = Inr s'" for it s s'
    using that by (rule clip_length)
  from assms(1) show ?thesis
    unfolding OutlierClipper_transform_def copy_def Let_def body
    by (rule column_loop_preserves [where key = fst, OF _ len assms(2)])
qed

lemma ColumnDropper_transform_preserves:
  assumes "ColumnDropper_transform cols X = Inr X'" and "aligned k X"
  shows "index X' = index X \<and> aligned k X'"
  using assms by (auto simp: ColumnDropper_transform_def copy_def aligned_drop_ignore)

lemma drop_columns_preserves:
  "drop_columns X cols = Inr X' \<Longrightarrow> aligned k X \<Longrightarrow> index X' = index X \<and> aligned k X'"
  by (auto simp: drop_columns_def aligned_drop_ignore split: if_splits)

lemma DateFeatureExtractor_transform_preserves:
  assumes "DateFeatureExtractor_transform to_datetime column prefix X = Inr X'"
    and "aligned k X" and "lenient_parser to_datetime"
  shows "index X' = index X \<and> aligned k X'"
proof -
  from assms(1) obtain s where s: "getitem X column = Inr s"
    by (cases "getitem X column") (auto simp: DateFeatureExtractor_transform_def copy_def)
  define X2 where "X2 = setitem (setitem X (prefix @ ''Year'') (dt_year (to_datetime s)))
      (prefix @ ''Month'') (dt_month (to_datetime s))"
  from assms(2) s have "length s = k" by (rule aligned_getitem)
  with assms(3) have "length (to_datetime s) = k" by (simp add: lenient_parser_def)
  then have "aligned k X2" "index X2 = index X"
    using assms(2) by (simp_all add: X2_def aligned_setitem dt_year_def dt_month_def)
  moreover from assms(1) s have "drop_columns X2 [column] = Inr X'"
    by (simp add: DateFeatureExtractor_transform_def copy_def Let_def X2_def)
  ultimately show ?thesis using drop_columns_preserves [of X2 "[column]" X' k] by simp
qed

lemma AreaFeatureSelector_transform_preserves:
  assumes "AreaFeatureSelector_transform area_columns X = Inr X'"
    and "aligned (nrows X) X"
  shows "index X' = index X \<and> aligned (nrows X) X'"
proof -
  from assms(1) obtain A where A: "getitem_list X area_columns = Inr A"
    by (cases "getitem_list X area_columns")
      (auto simp: AreaFeatureSelector_transform_def copy_def)
  with assms(1) obtain main where main: "iloc_first_column (bfill_axis1 A) = Inr main"
    by (cases "iloc_first_column (bfill_axis1 A)")
      (auto simp: AreaFeatureSelector_transform_def copy_def)
  from A have nA: "nrows A = nrows X"
    by (auto simp: getitem_list_def nrows_def split: option.splits)
  have "columns A \<noteq> []"
  proof
    assume "columns A = []"
    then have "iloc_first_column (bfill_axis1 A) = Inl IndexError"
      by (simp add: iloc_first_column_def bfill_axis1_def)
    with main show False by simp
  qed
  from iloc_first_column_bfill [OF this] main have "length main = nrows A"
    by auto
  with nA assms(2) have "aligned (nrows X) (setitem X ''MainArea'' main)"
    by (simp add: aligned_setitem)
  moreover from assms(1) A main
  have "drop_columns (setitem X ''MainArea'' main) area_columns = Inr X'"
    by (simp add: AreaFeatureSelector_transform_def copy_def Let_def)
  ultimately show ?thesis
    using drop_columns_preserves [of "setitem X ''MainArea'' main" area_columns X' "nrows X"]
    by simp
qed

lemma transform_preserves:
  assumes "transform repr to_datetime u X = Inr X'"
    and "aligned (nrows X) X" and "lenient_parser to_datetime"
  shows "index X' = index X \<and> aligned (nrows X) X'"
proof (cases u)
  case (AreaFeatureSelector area_columns)
  with assms show ?thesis
    by (auto simp: transform_def dest: AreaFeatureSelector_transform_preserves)
next
  case (RareCategoryGrouper_unit self)
  with assms show ?thesis
    by (auto simp: transform_def dest: RareCategoryGrouper_transform_preserves)
next
  case (BooleanNormalizer cols)
  with assms show ?thesis
    by (auto simp: transform_def dest: BooleanNormalizer_transform_preserves)
next
  case (DateFeatureExtractor column prefix)
  with assms show ?thesis
    by (auto simp: transform_def dest: DateFeatureExtractor_transform_preserves)
next
  case (OutlierClipper_unit self)
  with assms show ?thesis
    by (auto simp: transform_def dest: OutlierClipper_transform_preserves)
next
  case (ColumnDropper cols)
  with assms show ?thesis
    by (auto simp: transform_def dest: ColumnDropper_transform_preserves)
qed

lemma h_bind_simps [simp]:
  "m h = (h', Inl e) \<Longrightarrow> h_bind m f h = (h', Inl e)"
  "m h = (h', Inr v) \<Longrightarrow> h_bind m f h = f v h'"
  by (simp_all add: h_bind_def)

lemma h_for_each_sim:
  assumes step: "\<And>it h. x < length h \<Longrightarrow>
      body_h it h = (case B it (h ! x) of Inl e \<Rightarrow> (h, Inl e) | Inr t \<Rightarrow> (h[x := t], Inr ()))"
    and "x < length h"
  shows "\<exists>t. h_for_each cs body_h h =
               (h[x := t], case for_each cs B (h ! x) of Inl e \<Rightarrow> Inl e | Inr t' \<Rightarrow> Inr ()) \<and>
             (\<forall>t'. for_each cs B (h ! x) = Inr t' \<longrightarrow> t = t')"
  using assms(2)
proof (induction cs arbitrary: h)
  case Nil
  have "h[x := h ! x] = h" by simp
  then show ?case by (intro exI [of _ "h ! x"]) simp
next
  case (Cons c cs)
  show ?case
  proof (cases "B c (h ! x)")
    case (Inl e)
    then have "body_h c h = (h, Inl e)" using step [OF Cons.prems] by simp
    then have "h_for_each (c # cs) body_h h = (h[x := h ! x], Inl e)" by simp
    with Inl show ?thesis by (intro exI [of _ "h ! x"]) simp
  next
    case (Inr t1)
    then have b: "body_h c h = (h[x := t1], Inr ())" using step [OF Cons.prems] by simp
    from Cons.prems have x1: "x < length (h[x := t1])" by simp
    from Cons.IH [OF x1] obtain t where t:
      "h_for_each cs body_h (h[x := t1]) =
         (h[x := t1, x := t],
          case for_each cs B (h[x := t1] ! x) of Inl e \<Rightarrow> Inl e | Inr t' \<Rightarrow> Inr ())"
      "\<forall>t'. for_each cs B (h[x := t1] ! x) = Inr t' \<longrightarrow> t = t'"
      by blast
    from Cons.prems have nth: "h[x := t1] ! x = t1" by simp
    from b t(1) have "h_for_each (c # cs) body_h h =
        (h[x := t], case for_each cs B t1 of Inl e \<Rightarrow> Inl e | Inr t' \<Rightarrow> Inr ())"
      by (simp add: nth)
    with t(2) Inr show ?thesis by (intro exI [of _ t]) (simp add: nth)
  qed
qed

lemma loop_unit_simulates:
  assumes step: "\<And>x it h. x < length h \<Longrightarrow>
      body_h x it h = (case B it (h ! x) of Inl e \<Rightarrow> (h, Inl e) | Inr t \<Rightarrow> (h[x := t], Inr ()))"
  shows "simulates
           (\<lambda>X0. h_bind (h_copy X0) (\<lambda>X. h_bind (h_for_each cs (body_h X)) (\<lambda>_. h_return X)))
           (\<lambda>X0. for_each cs B X0)"
  unfolding simulates_def
proof (intro allI impI)
  fix h :: heap and a assume a: "a < length h"
  let ?h1 = "h @ [h ! a]" and ?x = "length h"
  have x: "?x < length ?h1" by simp
  from h_for_each_sim [of ?x "body_h ?x" B ?h1 cs, OF step x] obtain t where t:
    "h_for_each cs (body_h ?x) ?h1 =
       (?h1[?x := t], case for_each cs B (?h1 ! ?x) of Inl e \<Rightarrow> Inl e | Inr t' \<Rightarrow> Inr ())"
    "\<forall>t'. for_each cs B (?h1 ! ?x) = Inr t' \<longrightarrow> t = t'"
    by blast
  have h1x: "?h1 ! ?x = h ! a" by simp
  have upd: "?h1[?x := t] = h @ [t]" by simp
  let ?m = "h_bind (h_copy a) (\<lambda>X. h_bind (h_for_each cs (body_h X)) (\<lambda>_. h_return X))"
  have cp: "h_copy a h = (?h1, Inr ?x)" by (simp add: h_copy_def)
  show "\<exists>ts. fst (?m h) = h @ ts \<and>
           (case for_each cs B (h ! a) of
              Inl e \<Rightarrow> snd (?m h) = Inl e
            | Inr t \<Rightarrow> \<exists>x. snd (?m h) = Inr x \<and> length h \<le> x \<and> x < length h + length ts \<and>
                         (h @ ts) ! x = t)"
  proof (cases "for_each cs B (h ! a)")
    case (Inl e)
    with t(1) have "h_for_each cs (body_h ?x) ?h1 = (h @ [t], Inl e)"
      by (simp add: h1x upd)
    with cp have "?m h = (h @ [t], Inl e)" by simp
    with Inl show ?thesis by (intro exI [of _ "[t]"]) simp
  next
    case (Inr t')
    with t have tt: "t = t'" and "h_for_each cs (body_h ?x) ?h1 = (h @ [t], Inr ())"
      by (simp_all add: h1x upd)
    with cp have "?m h = (h @ [t], Inr ?x)" by (simp add: h_return_def)
    with Inr tt show ?thesis by (intro exI [of _ "[t]"]) simp
  qed
qed

lemma RareCategoryGrouper_simulates:
  "simulates (RareCategoryGrouper_transform_h self) (RareCategoryGrouper_transform self)"
proof -
  have "simulates
           (\<lambda>X0. h_bind (h_copy X0) (\<lambda>X. h_bind (h_for_each (rcg_columns self)
              (\<lambda>col.
                 h_bind (h_read X (\<lambda>t. getitem t col)) (\<lambda>s.
                 h_bind (h_lift (dict_get (frequent_categories self) col)) (\<lambda>cats.
                 h_setitem X col (where_other s (isin s cats) (Str ''Other'')))))) (\<lambda>_. h_return X)))
           (\<lambda>X0. for_each (rcg_columns self)
              (\<lambda>col X.
                 bind_err (getitem X col) (\<lambda>s.
                 bind_err (dict_get (frequent_categories self) col) (\<lambda>cats.
                   Inr (setitem X col (where_other s (isin s cats) (Str ''Other'')))))) X0)"
    by (rule loop_unit_simulates)
      (simp add: h_bind_def h_read_def h_lift_def h_setitem_def bind_err_def split: sum.splits)
  then show ?thesis
    by (simp add: RareCategoryGrouper_transform_h_def [abs_def]
        RareCategoryGrouper_transform_def [abs_def] copy_def)
qed

lemma BooleanNormalizer_simulates:
  "simulates (BooleanNormalizer_transform_h repr cols) (BooleanNormalizer_transform repr cols)"
proof -
  have "simulates
           (\<lambda>X0. h_bind (h_copy X0) (\<lambda>X. h_bind (h_for_each cols
              (\<lambda>col.
                 h_bind (h_read X (\<lambda>t. getitem t col)) (\<lambda>s.
                 h_setitem X col (map boolean_code (map str_lower (map (astype_str repr) s))))))
              (\<lambda>_. h_return X)))
           (\<lambda>X0. for_each cols
              (\<lambda>col X.
                 bind_err (getitem X col) (\<lambda>s.
                   Inr (setitem X col (map boolean_code (map str_lower (map (astype_str repr) s))))))
              X0)"
    by (rule loop_unit_simulates)
      (simp add: h_bind_def h_read_def h_setitem_def bind_err_def split: sum.splits)
  then show ?thesis
    by (simp add: BooleanNormalizer_transform_h_def [abs_def]
        BooleanNormalizer_transform_def [abs_def] copy_def)
qed

lemma OutlierClipper_simulates:
  "simulates (OutlierClipper_transform_h self) (OutlierClipper_transform self)"
proof -
  have "simulates
           (\<lambda>X0. h_bind (h_copy X0) (\<lambda>X. h_bind (h_for_each (bounds self)
              (\<lambda>(col, (lower, upper)).
                 h_bind (h_read X (\<lambda>t. getitem t col)) (\<lambda>s.
                 h_bind (h_lift (clip s lower upper)) (\<lambda>s'.
                 h_setitem X col s'))))
              (\<lambda>_. h_return X)))
           (\<lambda>X0. for_each (bounds self)
              (\<lambda>(col, (lower, upper)) X.
                 bind_err (getitem X col) (\<lambda>s.
                 bind_err (clip s lower upper) (\<lambda>s'.
                   Inr (setitem X col s'))))
              X0)"
    by (rule loop_unit_simulates)
      (simp add: h_bind_def h_read_def h_lift_def h_setitem_def bind_err_def case_prod_unfold
        split: sum.splits)
  then show ?thesis
    by (simp add: OutlierClipper_transform_h_def [abs_def]
        OutlierClipper_transform_def [abs_def] copy_def)
qed

lemma ColumnDropper_simulates:
  "simulates (ColumnDropper_transform_h cols) (ColumnDropper_transform cols)"
  unfolding simulates_def
proof (intro allI impI)
  fix h :: heap and a assume "a < length h"
  have "ColumnDropper_transform_h cols a h
          = (h @ [h ! a, drop_ignore (h ! a) cols], Inr (Suc (length h)))"
    by (simp add: ColumnDropper_transform_h_def h_bind_def h_copy_def h_drop_ignore_def
        nth_append)
  then show "\<exists>ts. fst (ColumnDropper_transform_h cols a h) = h @ ts \<and>
           (case ColumnDropper_transform cols (h ! a) of
              Inl e \<Rightarrow> snd (ColumnDropper_transform_h cols a h) = Inl e
            | Inr t \<Rightarrow> \<exists>x. snd (ColumnDropper_transform_h cols a h) = Inr x \<and> length h \<le> x \<and>
                         x < length h + length ts \<and> (h @ ts) ! x = t)"
    by (intro exI [of _ "[h ! a, drop_ignore (h ! a) cols]"])
      (simp add: ColumnDropper_transform_def copy_def nth_append)
qed

lemma h_drop_after_copy:
  "\<exists>ts. fst (h_drop (length h) cols (h @ [Y])) = h @ ts \<and>
      (case drop_columns Y cols of
         Inl e \<Rightarrow> snd (h_drop (length h) cols (h @ [Y])) = Inl e
       | Inr t \<Rightarrow> \<exists>x. snd (h_drop (length h) cols (h @ [Y])) = Inr x \<and> length h \<le> x \<and>
                    x < length h + length ts \<and> (h @ ts) ! x = t)"
proof (cases "drop_columns Y cols")
  case (Inl e)
  then show ?thesis by (intro exI [of _ "[Y]"]) (simp add: h_drop_def)
next
  case (Inr t)
  then show ?thesis by (intro exI [of _ "[Y, t]"]) (simp add: h_drop_def nth_append)
qed

lemma DateFeatureExtractor_simulates:
  "simulates (DateFeatureExtractor_transform_h to_datetime column prefix)
     (DateFeatureExtractor_transform to_datetime column prefix)"
  unfolding simulates_def
proof (intro allI impI)
  fix h :: heap and a assume "a < length h"
  let ?m = "DateFeatureExtractor_transform_h to_datetime column prefix"
  let ?f = "DateFeatureExtractor_transform to_datetime column prefix"
  show "\<exists>ts. fst (?m a h) = h @ ts \<and>
           (case ?f (h ! a) of
              Inl e \<Rightarrow> snd (?m a h) = Inl e
            | Inr t \<Rightarrow> \<exists>x. snd (?m a h) = Inr x \<and> length h \<le> x \<and>
                         x < length h + length ts \<and> (h @ ts) ! x = t)"
  proof (cases "getitem (h ! a) column")
    case (Inl e)
    then have "?m a h = (h @ [h ! a], Inl e)" "?f (h ! a) = Inl e"
      by (simp_all add: DateFeatureExtractor_transform_h_def h_bind_def h_copy_def h_read_def
          DateFeatureExtractor_transform_def copy_def)
    then show ?thesis by (intro exI [of _ "[h ! a]"]) simp
  next
    case (Inr s)
    define Y where "Y = setitem (setitem (h ! a) (prefix @ ''Year'') (dt_year (to_datetime s)))
        (prefix @ ''Month'') (dt_month (to_datetime s))"
    from Inr have m: "?m a h = h_drop (length h) [column] (h @ [Y])"
      by (simp add: DateFeatureExtractor_transform_h_def h_bind_def h_copy_def h_read_def
          h_return_def h_setitem_def Y_def)
    from Inr have f: "?f (h ! a) = drop_columns Y [column]"
      by (simp add: DateFeatureExtractor_transform_def copy_def Let_def Y_def)
    show ?thesis unfolding m f by (rule h_drop_after_copy)
  qed
qed

lemma AreaFeatureSelector_simulates:
  "simulates (AreaFeatureSelector_transform_h area_columns)
     (AreaFeatureSelector_transform area_columns)"
  unfolding simulates_def
proof (intro allI impI)
  fix h :: heap and a assume "a < length h"
  let ?m = "AreaFeatureSelector_transform_h area_columns"
  let ?f = "AreaFeatureSelector_transform area_columns"
  show "\<exists>ts. fst (?m a h) = h @ ts \<and>
           (case ?f (h ! a) of
              Inl e \<Rightarrow> snd (?m a h) = Inl e
            | Inr t \<Rightarrow> \<exists>x. snd (?m a h) = Inr x \<and> length h \<le> x \<and>
                         x < length h + length ts \<and> (h @ ts) ! x = t)"
  proof (cases "getitem_list (h ! a) area_columns")
    case (Inl e)
    then have "?m a h = (h @ [h ! a], Inl e)" "?f (h ! a) = Inl e"
      by (simp_all add: AreaFeatureSelector_transform_h_def h_bind_def h_copy_def h_read_def
          AreaFeatureSelector_transform_def copy_def)
    then show ?thesis by (intro exI [of _ "[h ! a]"]) simp
  next
    case A: (Inr A)
    show ?thesis
    proof (cases "iloc_first_column (bfill_axis1 A)")
      case (Inl e)
      with A have "?m a h = (h @ [h ! a], Inl e)" "?f (h ! a) = Inl e"
        by (simp_all add: AreaFeatureSelector_transform_h_def h_bind_def h_copy_def h_read_def
            h_lift_def AreaFeatureSelector_transform_def copy_def)
      then show ?thesis by (intro exI [of _ "[h ! a]"]) simp
    next
      case (Inr main)
      with A have m: "?m a h = h_drop (length h) area_columns
                                 (h @ [setitem (h ! a) ''MainArea'' main])"
        by (simp add: AreaFeatureSelector_transform_h_def h_bind_def h_copy_def h_read_def
            h_lift_def h_setitem_def)
      from A Inr have f: "?f (h ! a) = drop_columns (setitem (h ! a) ''MainArea'' main) area_columns"
        by (simp add: AreaFeatureSelector_transform_def copy_def Let_def)
      show ?thesis unfolding m f by (rule h_drop_after_copy)
    qed
  qed
qed

lemma transform_simulates: "simulates (transform_h repr to_datetime u) (transform repr to_datetime u)"
  by (cases u)
    (simp_all add: transform_h_def [abs_def] transform_def [abs_def]
      AreaFeatureSelector_simulates RareCategoryGrouper_simulates BooleanNormalizer_simulates
      DateFeatureExtractor_simulates OutlierClipper_simulates ColumnDropper_simulates)

text \<open>
  Claim C9. Frames live in a store and \<open>transform\<close> is given the address of the caller's
  frame. For every unit, \<open>transform\<close> leaves every frame the store held before the call as it
  was, the caller's frame among them, whether it returns or raises. When it returns, the
  result is a frame at a new address; it is the frame the value-level \<open>transform\<close> computes;
  its row labels are those of the input, in the same order, and each of its columns has one
  cell per row of the input.
\<close>

theorem transform_leaves_input_unmodified:
  assumes "a < length h" and "wf_table (h ! a)" and "lenient_parser to_datetime"
  shows "\<exists>h' r.
           transform_h repr to_datetime u a h = (h', r) \<and>
           length h \<le> length h' \<and> (\<forall>b < length h. h' ! b = h ! b) \<and> h' ! a = h ! a \<and>
           (case r of
              Inl e \<Rightarrow> transform repr to_datetime u (h ! a) = Inl e
            | Inr x \<Rightarrow>
                length h \<le> x \<and> x < length h' \<and>
                transform repr to_datetime u (h ! a) = Inr (h' ! x) \<and>
                index (h' ! x) = index (h ! a) \<and> nrows (h' ! x) = nrows (h ! a) \<and>
                list_all (\<lambda>(n, s). length s = nrows (h ! a)) (columns (h' ! x)))"
proof -
  let ?m = "transform_h repr to_datetime u" and ?f = "transform repr to_datetime u"
  from transform_simulates [of repr to_datetime u] assms(1) obtain ts where
    ts: "fst (?m a h) = h @ ts"
    and res: "case ?f (h ! a) of
              Inl e \<Rightarrow> snd (?m a h) = Inl e
            | Inr t \<Rightarrow> \<exists>x. snd (?m a h) = Inr x \<and> length h \<le> x \<and> x < length h + length ts \<and>
                         (h @ ts) ! x = t"
    unfolding simulates_def by blast
  have al: "aligned (nrows (h ! a)) (h ! a)"
    using assms(2) by (simp add: wf_table_def aligned_def)
  have old: "\<forall>b < length h. (h @ ts) ! b = h ! b" by (simp add: nth_append)
  have res': "case snd (?m a h) of
              Inl e \<Rightarrow> ?f (h ! a) = Inl e
            | Inr x \<Rightarrow>
                length h \<le> x \<and> x < length (h @ ts) \<and>
                ?f (h ! a) = Inr ((h @ ts) ! x) \<and>
                index ((h @ ts) ! x) = index (h ! a) \<and> nrows ((h @ ts) ! x) = nrows (h ! a) \<and>
                list_all (\<lambda>(n, s). length s = nrows (h ! a)) (columns ((h @ ts) ! x))"
  proof (cases "?f (h ! a)")
    case (Inl e)
    with res show ?thesis by simp
  next
    case (Inr t)
    with res obtain x where x: "snd (?m a h) = Inr x" "length h \<le> x" "x < length h + length ts"
      "(h @ ts) ! x = t"
      by auto
    from transform_preserves [OF Inr al assms(3)]
    have "index t = index (h ! a)" "aligned (nrows (h ! a)) t" by simp_all
    with x Inr show ?thesis by (simp add: nrows_def aligned_def)
  qed
  show ?thesis
  proof (intro exI [of _ "h @ ts"] exI [of _ "snd (?m a h)"] conjI)
    show "?m a h = (h @ ts, snd (?m a h))" using ts by (simp add: prod_eq_iff)
    show "length h \<le> length (h @ ts)" by simp
    show "\<forall>b < length h. (h @ ts) ! b = h ! b" by (rule old)
    show "(h @ ts) ! a = h ! a" using assms(1) by (simp add: nth_append)
    show "case snd (?m a h) of
              Inl e \<Rightarrow> ?f (h ! a) = Inl e
            | Inr x \<Rightarrow>
                length h \<le> x \<and> x < length (h @ ts) \<and>
                ?f (h ! a) = Inr ((h @ ts) ! x) \<and>
                index ((h @ ts) ! x) = index (h ! a) \<and> nrows ((h @ ts) ! x) = nrows (h ! a) \<and>
                list_all (\<lambda>(n, s). length s = nrows (h ! a)) (columns ((h @ ts) ! x))"
      by (rule res')
  qed
qed

theorem transform_leaves_input_unmodified_witness:
  "(0 :: nat) < length [area_table] \<and> wf_table ([area_table] ! 0) \<and>
   lenient_parser example_to_datetime \<and>
   transform_h (\<lambda>r. ''0.5'') example_to_datetime
       (AreaFeatureSelector [''LivingArea'', ''Price'']) 0 [area_table]
     = ([area_table,
         \<lparr>index = [0, 1, 2],
          columns = [(''MainArea'', [Num 55, Num 70, Num 3]),
                     (''LivingArea'', [Num 55, Num 70, Missing]),
                     (''Price'', [Num 1, Num 2, Num 3])]\<rparr>,
         \<lparr>index = [0, 1, 2], columns = [(''MainArea'', [Num 55, Num 70, Num 3])]\<rparr>],
        Inr 2)"
proof -
  have h1: "(0 :: nat) < length [area_table]" by simp
  have h2: "wf_table ([area_table] ! 0)"
    by (simp add: wf_table_def area_table_def column_names_def nrows_def)
  have ev: "transform_h (\<lambda>r. ''0.5'') example_to_datetime
       (AreaFeatureSelector [''LivingArea'', ''Price'']) 0 [area_table]
     = ([area_table,
         \<lparr>index = [0, 1, 2],
          columns = [(''MainArea'', [Num 55, Num 70, Num 3]),
                     (''LivingArea'', [Num 55, Num 70, Missing]),
                     (''Price'', [Num 1, Num 2, Num 3])]\<rparr>,
         \<lparr>index = [0, 1, 2], columns = [(''MainArea'', [Num 55, Num 70, Num 3])]\<rparr>],
        Inr 2)"
    by (simp add: transform_h_def AreaFeatureSelector_transform_h_def h_bind_def h_copy_def
        h_read_def h_lift_def h_setitem_def h_drop_def area_table_def getitem_list_def
        iloc_first_column_def bfill_axis1_def row_at_def nrows_def setitem_def drop_columns_def
        drop_ignore_def column_names_def Let_def upt_conv_Cons)
  from transform_leaves_input_unmodified [OF h1 h2 lenient_example_to_datetime,
      of "\<lambda>r. ''0.5''" "AreaFeatureSelector [''LivingArea'', ''Price'']"]
    h1 h2 lenient_example_to_datetime ev
  show ?thesis by blast
qed


end
